theory Spec2Isabelle
  imports Complex_Main
begin

section \<open>Strings: the two \<^verbatim>\<open>str\<close> methods and the substring test the program uses\<close>

text \<open>
  A Python \<^verbatim>\<open>str\<close> is modelled as a HOL \<^typ>\<open>string\<close>; a character is read as a code
  point below 256 (the Latin-1 block). \<^verbatim>\<open>str.strip()\<close> removes leading and trailing
  white space, which in that block is 9..13, 28..32, 133 and 160. \<^verbatim>\<open>str.lower()\<close> maps
  \<^verbatim>\<open>A..Z\<close> and the upper-case letters 192..222 (215, the multiplication sign, apart)
  to the code point 32 above.
\<close>

definition isspace :: "char \<Rightarrow> bool" where
  "isspace c =
     (let n = (of_char c :: nat)
      in (9 \<le> n \<and> n \<le> 13) \<or> (28 \<le> n \<and> n \<le> 32) \<or> n = 133 \<or> n = 160)"

definition lower_char :: "char \<Rightarrow> char" where
  "lower_char c =
     (let n = (of_char c :: nat)
      in if (65 \<le> n \<and> n \<le> 90) \<or> (192 \<le> n \<and> n \<le> 222 \<and> n \<noteq> 215)
         then char_of (n + 32) else c)"

definition lower :: "string \<Rightarrow> string" where
  "lower s = map lower_char s"

definition strip :: "string \<Rightarrow> string" where
  "strip s = rev (dropWhile isspace (rev (dropWhile isspace s)))"

text \<open>\<^verbatim>\<open>sub in s\<close> on strings: \<^verbatim>\<open>sub\<close> occurs in \<^verbatim>\<open>s\<close> as a contiguous block.\<close>

fun py_in :: "string \<Rightarrow> string \<Rightarrow> bool" where
  "py_in sub [] = (sub = [])"
| "py_in sub (c # cs) = (take (length sub) (c # cs) = sub \<or> py_in sub cs)"

section \<open>Module state\<close>

text \<open>
  One company dictionary, with the seven keys \<^verbatim>\<open>add_discovered_company\<close> creates.
\<close>

record company =
  name :: string
  location :: string
  website :: string
  services :: string
  email :: string
  contact_details :: string
  detailed_report :: string

text \<open>
  \<^verbatim>\<open>TARGET_COMPANIES\<close> is an \<^verbatim>\<open>int\<close> or \<^verbatim>\<open>float('inf')\<close>.
\<close>

datatype target = Count int | Unlimited

text \<open>
  The module's globals, and the content of the CSV file below its header: one row per
  \<^verbatim>\<open>writerow\<close>, a row being the list of its cells.
\<close>

record state =
  last_request_time :: real
  request_count :: nat
  TARGET_COMPANIES :: target
  discovered_companies :: "company list"
  current_research_index :: nat
  discovery_complete :: bool
  csv_file :: "string list list"

definition MIN_REQUEST_INTERVAL :: real where
  "MIN_REQUEST_INTERVAL = 3"

definition MAX_REQUESTS_PER_MINUTE :: nat where
  "MAX_REQUESTS_PER_MINUTE = 25"

text \<open>The comparison \<^verbatim>\<open>len(discovered_companies) >= TARGET_COMPANIES\<close>.\<close>

definition len_ge_target :: "company list \<Rightarrow> target \<Rightarrow> bool" where
  "len_ge_target cs t = (case t of Count c \<Rightarrow> c \<le> int (length cs) | Unlimited \<Rightarrow> False)"

section \<open>The registry: \<^verbatim>\<open>add_discovered_company\<close>\<close>

text \<open>
  The five texts the tool returns:
  \<^item> \<open>NameRequired\<close>: \<^verbatim>\<open>Error: Company name is required\<close>;
  \<^item> \<open>TargetReached t\<close>: \<^verbatim>\<open>Target reached: {TARGET_COMPANIES} companies found\<close>;
  \<^item> \<open>AlreadyExists n\<close>: \<^verbatim>\<open>Company {company_name} already exists\<close>;
  \<^item> \<open>SuccessTarget k\<close>: \<^verbatim>\<open>SUCCESS: Found {k} companies (target reached)\<close>;
  \<^item> \<open>SuccessfullyAdded n\<close>: \<^verbatim>\<open>Successfully added company: {company_name}\<close>.
\<close>

datatype signal =
    NameRequired
  | TargetReached target
  | AlreadyExists string
  | SuccessTarget nat
  | SuccessfullyAdded string

text \<open>
  The duplicate scan \<^verbatim>\<open>for existing in discovered_companies\<close>: is there a record whose
  \<^verbatim>\<open>existing['name'].lower().strip()\<close> equals the cleaned candidate name?
\<close>

definition name_exists :: "string \<Rightarrow> company list \<Rightarrow> bool" where
  "name_exists company_name_clean cs =
     list_ex (\<lambda>existing. strip (lower (name existing)) = company_name_clean) cs"

text \<open>
  The name is \<^verbatim>\<open>None\<close> or a string; \<^verbatim>\<open>not company_name\<close> holds of \<^verbatim>\<open>None\<close> and of the
  empty string.
\<close>

fun add_discovered_company ::
  "string option \<Rightarrow> string \<Rightarrow> string \<Rightarrow> string \<Rightarrow> string \<Rightarrow> string \<Rightarrow> state \<Rightarrow> signal \<times> state"
where
  "add_discovered_company None loc web srv em cd s = (NameRequired, s)"
| "add_discovered_company (Some company_name) loc web srv em cd s =
     (if company_name = [] \<or> strip company_name = [] then (NameRequired, s)
      else if len_ge_target (discovered_companies s) (TARGET_COMPANIES s)
        then (TargetReached (TARGET_COMPANIES s), s)
      else if name_exists (lower (strip company_name)) (discovered_companies s)
        then (AlreadyExists company_name, s)
      else
        (let company_data =
               \<lparr> name = strip company_name, location = strip loc, website = strip web,
                 services = strip srv, email = strip em, contact_details = strip cd,
                 detailed_report = [] \<rparr>;
             s' = s\<lparr> discovered_companies := discovered_companies s @ [company_data] \<rparr>
         in if len_ge_target (discovered_companies s') (TARGET_COMPANIES s')
            then (SuccessTarget (length (discovered_companies s')), s')
            else (SuccessfullyAdded company_name, s')))"

text \<open>One call of the tool, as an agent issues it, and a run of such calls in order.\<close>

datatype tool_call =
  AddDiscoveredCompany "string option" string string string string string

fun call_tool :: "tool_call \<Rightarrow> state \<Rightarrow> signal \<times> state" where
  "call_tool (AddDiscoveredCompany n loc web srv em cd) s =
     add_discovered_company n loc web srv em cd s"

fun call_tools :: "tool_call list \<Rightarrow> state \<Rightarrow> state" where
  "call_tools [] s = s"
| "call_tools (c # cs) s = call_tools cs (snd (call_tool c s))"

text \<open>A tool result that is not an insertion.\<close>

fun rejected :: "signal \<Rightarrow> bool" where
  "rejected NameRequired = True"
| "rejected (TargetReached t) = True"
| "rejected (AlreadyExists n) = True"
| "rejected (SuccessTarget k) = False"
| "rejected (SuccessfullyAdded n) = False"

text \<open>
  The name of a record after trimming and case folding, the folding being that of the
  program, \<^verbatim>\<open>str.lower()\<close>.
\<close>

definition folded_name :: "company \<Rightarrow> string" where
  "folded_name c = lower (strip (name c))"

section \<open>The rate limiter: \<^verbatim>\<open>enhanced_rate_limit\<close>\<close>

text \<open>
  Time is a real number of seconds. \<open>current_time\<close> is what \<^verbatim>\<open>time.time()\<close> returns on
  entry; \<^verbatim>\<open>time.sleep(d)\<close> lasts exactly \<open>d\<close>, and nothing else in the function takes
  time, so the second \<^verbatim>\<open>time.time()\<close> returns \<open>current_time\<close> plus what was slept. That
  value, stored in \<^verbatim>\<open>last_request_time\<close>, is the moment the call is granted.
\<close>

definition enhanced_rate_limit :: "real \<Rightarrow> state \<Rightarrow> state" where
  "enhanced_rate_limit current_time s =
     (let count1 = (if current_time - last_request_time s > 60 then 0 else request_count s);
          hit = (count1 \<ge> MAX_REQUESTS_PER_MINUTE);
          slept1 = (if hit then 60 else 0);
          count2 = (if hit then 0 else count1);
          slept2 = (if current_time - last_request_time s < MIN_REQUEST_INTERVAL
                    then MIN_REQUEST_INTERVAL - (current_time - last_request_time s)
                    else 0)
      in s\<lparr> last_request_time := current_time + slept1 + slept2,
            request_count := count2 + 1 \<rparr>)"

text \<open>
  A run of calls of the limiter, the n-th entering at the n-th time of the list: the
  moments at which the calls are granted.
\<close>

fun grant_times :: "real list \<Rightarrow> state \<Rightarrow> real list" where
  "grant_times [] s = []"
| "grant_times (t # ts) s =
     last_request_time (enhanced_rate_limit t s) # grant_times ts (enhanced_rate_limit t s)"

text \<open>The state the run leaves behind.\<close>

fun after_calls :: "real list \<Rightarrow> state \<Rightarrow> state" where
  "after_calls [] s = s"
| "after_calls (t # ts) s = after_calls ts (enhanced_rate_limit t s)"

text \<open>
  A run in which no call resets the counter: each call enters at most 60 seconds after
  the grant before it.
\<close>

fun calls_within_a_minute :: "real list \<Rightarrow> state \<Rightarrow> bool" where
  "calls_within_a_minute [] s = True"
| "calls_within_a_minute (t # ts) s =
     (t - last_request_time s \<le> 60 \<and> calls_within_a_minute ts (enhanced_rate_limit t s))"

section \<open>The persistence sink: \<^verbatim>\<open>add_company_to_csv\<close>\<close>

definition csv_row :: "company \<Rightarrow> string list" where
  "csv_row company_data =
     [name company_data, location company_data, website company_data, services company_data,
      email company_data, contact_details company_data, detailed_report company_data]"

text \<open>
  \<open>writable\<close> says whether opening the file and writing the row succeed. When they do
  not, the exception is caught, no row is written and the result is \<^verbatim>\<open>False\<close>.
\<close>

definition add_company_to_csv :: "bool \<Rightarrow> company \<Rightarrow> state \<Rightarrow> bool \<times> state" where
  "add_company_to_csv writable company_data s =
     (if writable then (True, s\<lparr> csv_file := csv_file s @ [csv_row company_data] \<rparr>)
      else (False, s))"

section \<open>The external agents\<close>

text \<open>
  One \<^verbatim>\<open>invoke\<close> of a ReAct agent: the calls of \<^verbatim>\<open>add_discovered_company\<close> it makes, in
  order (both agents are created with that tool), and how it ends: it raises an exception
  with text \<open>e\<close>; or it returns a result with no usable \<^verbatim>\<open>messages\<close>, \<open>e\<close> being the text of
  the exception that \<^verbatim>\<open>result["messages"][-1]\<close> raises on it; or it returns a result whose
  last message has the given content.
\<close>

datatype agent_outcome = Raises string | NoMessages string | LastMessage string

record agent_run =
  tools_called :: "tool_call list"
  outcome :: agent_outcome

section \<open>The discovery node\<close>

definition max_attempts :: nat where
  "max_attempts = 10"

text \<open>
  The \<^verbatim>\<open>while\<close> loop of \<^verbatim>\<open>discovery_node\<close>. \<open>agent k\<close> is the run of the k-th \<^verbatim>\<open>invoke\<close>.
  The result is the text of the exception that left the loop, if one did; the value of
  \<^verbatim>\<open>attempts\<close>, which counts the invocations; and the state.
\<close>

function discovery_loop :: "(nat \<Rightarrow> agent_run) \<Rightarrow> nat \<Rightarrow> state \<Rightarrow> string option \<times> nat \<times> state" where
  "discovery_loop agent attempts s =
     (if \<not> len_ge_target (discovered_companies s) (TARGET_COMPANIES s) \<and> attempts < max_attempts
      then
        (case outcome (agent (attempts + 1)) of
           Raises e \<Rightarrow> (Some e, attempts + 1, call_tools (tools_called (agent (attempts + 1))) s)
         | NoMessages e \<Rightarrow>
             if attempts + 1 \<ge> max_attempts
             then (None, attempts + 1, call_tools (tools_called (agent (attempts + 1))) s)
             else discovery_loop agent (attempts + 1)
                    (call_tools (tools_called (agent (attempts + 1))) s)
         | LastMessage last_message \<Rightarrow>
             if py_in ''Target reached'' last_message \<or> py_in ''SUCCESS'' last_message
             then (None, attempts + 1, call_tools (tools_called (agent (attempts + 1))) s)
             else if py_in ''already exists'' last_message
             then discovery_loop agent (attempts + 1)
                    (call_tools (tools_called (agent (attempts + 1))) s)
             else if attempts + 1 \<ge> max_attempts
             then (None, attempts + 1, call_tools (tools_called (agent (attempts + 1))) s)
             else discovery_loop agent (attempts + 1)
                    (call_tools (tools_called (agent (attempts + 1))) s))
      else (None, attempts, s))"
  by pat_completeness auto
termination
  by (relation "measure (\<lambda>(agent, attempts, s). max_attempts - attempts)") auto

text \<open>
  The node returns its marker (the content of the message it emits), the number of agent
  invocations it made, and the state.
\<close>

definition discovery_node :: "real \<Rightarrow> (nat \<Rightarrow> agent_run) \<Rightarrow> state \<Rightarrow> string \<times> nat \<times> state" where
  "discovery_node current_time agent s =
     (if len_ge_target (discovered_companies s) (TARGET_COMPANIES s)
      then (''DISCOVERY_COMPLETE'', 0, s\<lparr> discovery_complete := True \<rparr>)
      else
        (case discovery_loop agent 0 (enhanced_rate_limit current_time s) of
           (Some e, attempts, s') \<Rightarrow>
             (''DISCOVERY_ERROR: '' @ ''Discovery error: '' @ e, attempts, s')
         | (None, attempts, s') \<Rightarrow>
             (''DISCOVERY_COMPLETE'', attempts, s'\<lparr> discovery_complete := True \<rparr>)))"

section \<open>The research node\<close>

text \<open>
  \<^verbatim>\<open>current_company\<close> is the dictionary at the cursor, fetched before the agent runs and
  updated in place afterwards. The agent's tool calls only append to the list, so the
  dictionary is still the element at the cursor when the report is attached.
\<close>

definition research_node :: "real \<Rightarrow> agent_run \<Rightarrow> bool \<Rightarrow> state \<Rightarrow> string \<times> state" where
  "research_node current_time run writable s =
     (let s1 = enhanced_rate_limit current_time s
      in if current_research_index s1 \<ge> length (discovered_companies s1)
         then (''ALL_RESEARCH_COMPLETE'', s1)
         else
           (let current_company = discovered_companies s1 ! current_research_index s1;
                s2 = call_tools (tools_called run) s1
            in case outcome run of
                 Raises e \<Rightarrow> (''RESEARCH_ERROR: '' @ ''Research error: '' @ e, s2)
               | NoMessages e \<Rightarrow> (''RESEARCH_ERROR: '' @ ''Research error: '' @ e, s2)
               | LastMessage research_report \<Rightarrow>
                   (let updated = current_company\<lparr> detailed_report := research_report \<rparr>;
                        s3 = s2\<lparr> discovered_companies :=
                                  (discovered_companies s2)[current_research_index s2 := updated] \<rparr>;
                        s4 = snd (add_company_to_csv writable updated s3)
                    in (''RESEARCH_PROGRESS'',
                        s4\<lparr> current_research_index := current_research_index s4 + 1 \<rparr>))))"

section \<open>The workflow: \<^verbatim>\<open>should_continue\<close> and the research edge\<close>

datatype step = Research | END

definition should_continue :: "string \<Rightarrow> state \<Rightarrow> step" where
  "should_continue last_message s =
     (if py_in ''ALL_RESEARCH_COMPLETE'' last_message then END
      else if py_in ''ERROR'' last_message then END
      else if py_in ''DISCOVERY_COMPLETE'' last_message \<and> length (discovered_companies s) > 0
        then Research
      else if py_in ''RESEARCH_PROGRESS'' last_message
              \<and> current_research_index s < length (discovered_companies s)
        then Research
      else if current_research_index s \<ge> length (discovered_companies s)
              \<and> length (discovered_companies s) > 0
        then END
      else END)"

text \<open>
  The conditional edges of the graph after a node has emitted \<open>marker\<close>: while
  \<^verbatim>\<open>should_continue\<close> answers \<^verbatim>\<open>"research"\<close> the research node runs again. Each run takes
  its clock reading, the agent's run and whether the file can be written from the head of
  the list;
  the length of the list bounds the number of steps, as the graph's recursion limit does.
\<close>

fun research_phase :: "(real \<times> agent_run \<times> bool) list \<Rightarrow> string \<Rightarrow> state \<Rightarrow> string \<times> state" where
  "research_phase [] marker s = (marker, s)"
| "research_phase ((current_time, run, writable) # rest) marker s =
     (case should_continue marker s of
        END \<Rightarrow> (marker, s)
      | Research \<Rightarrow>
          research_phase rest (fst (research_node current_time run writable s))
            (snd (research_node current_time run writable s)))"

section \<open>States and agents used in the examples\<close>

text \<open>
  The globals as the module and \<^verbatim>\<open>run_enhanced_research\<close> set them before the graph
  starts, for a given target; the file holds its header only.
\<close>

definition initial_state :: "target \<Rightarrow> state" where
  "initial_state t =
     \<lparr> last_request_time = 0, request_count = 0, TARGET_COMPANIES = t,
       discovered_companies = [], current_research_index = 0, discovery_complete = False,
       csv_file = [] \<rparr>"

text \<open>A record as \<^verbatim>\<open>add_discovered_company\<close> stores it for a name given alone.\<close>

definition company_named :: "string \<Rightarrow> company" where
  "company_named n =
     \<lparr> name = n, location = [], website = [], services = [], email = [],
       contact_details = [], detailed_report = [] \<rparr>"

definition add_call :: "string \<Rightarrow> tool_call" where
  "add_call n = AddDiscoveredCompany (Some n) [] [] [] [] []"

text \<open>A registry of the given records, everything else as at the start.\<close>

definition state_with :: "target \<Rightarrow> company list \<Rightarrow> nat \<Rightarrow> state" where
  "state_with t cs k =
     (initial_state t)\<lparr> discovered_companies := cs, current_research_index := k \<rparr>"

text \<open>An agent that calls no tool and answers with the same text at every invocation.\<close>

definition silent_agent :: "string \<Rightarrow> nat \<Rightarrow> agent_run" where
  "silent_agent answer k = \<lparr> tools_called = [], outcome = LastMessage answer \<rparr>"

text \<open>An agent that raises at every invocation.\<close>

definition failing_agent :: "string \<Rightarrow> nat \<Rightarrow> agent_run" where
  "failing_agent e k = \<lparr> tools_called = [], outcome = Raises e \<rparr>"

section \<open>The registry: properties\<close>

subsection \<open>Trimming and lower-casing commute\<close>


lemma isspace_lower_char: "isspace (lower_char c) = isspace c"
  unfolding isspace_def lower_char_def Let_def
  by (auto split: if_splits) 

lemma strip_lower: "strip (lower s) = lower (strip s)"
  by (simp add: strip_def lower_def dropWhile_map rev_map comp_def isspace_lower_char)

lemma dropWhile_rev_dropWhile:
  "xs = [] \<or> \<not> P (hd xs) \<Longrightarrow> dropWhile P (rev (dropWhile P (rev xs))) = rev (dropWhile P (rev xs))"
  by (cases xs) (auto simp: dropWhile_append3)

lemma strip_strip: "strip (strip s) = strip s"
proof -
  let ?a = "dropWhile isspace s"
  have "?a = [] \<or> \<not> isspace (hd ?a)" using hd_dropWhile[of isspace s] by blast
  then have "dropWhile isspace (rev (dropWhile isspace (rev ?a))) = rev (dropWhile isspace (rev ?a))"
    by (rule dropWhile_rev_dropWhile)
  then show ?thesis
    by (simp add: strip_def)
qed

lemma name_exists_iff:
  "name_exists (lower (strip n)) cs \<longleftrightarrow> lower (strip n) \<in> set (map folded_name cs)"
  by (force simp: name_exists_def list_ex_iff folded_name_def strip_lower)

text \<open>The four ways a call can end, in the order the code tests them.\<close>

lemma add_name_required:
  "n = None \<or> n = Some [] \<or> (\<exists>m. n = Some m \<and> strip m = []) \<Longrightarrow>
   add_discovered_company n loc web srv em cd s = (NameRequired, s)"
  by (cases n) auto

lemma add_target_reached:
  "strip m \<noteq> [] \<Longrightarrow> len_ge_target (discovered_companies s) (TARGET_COMPANIES s) \<Longrightarrow>
   add_discovered_company (Some m) loc web srv em cd s = (TargetReached (TARGET_COMPANIES s), s)"
  by (auto simp: strip_def)

lemma add_already_exists:
  "strip m \<noteq> [] \<Longrightarrow> \<not> len_ge_target (discovered_companies s) (TARGET_COMPANIES s) \<Longrightarrow>
   lower (strip m) \<in> set (map folded_name (discovered_companies s)) \<Longrightarrow>
   add_discovered_company (Some m) loc web srv em cd s = (AlreadyExists m, s)"
  using name_exists_iff[of m "discovered_companies s"] by (auto simp: strip_def)

lemma add_appends:
  "strip m \<noteq> [] \<Longrightarrow> \<not> len_ge_target (discovered_companies s) (TARGET_COMPANIES s) \<Longrightarrow>
   lower (strip m) \<notin> set (map folded_name (discovered_companies s)) \<Longrightarrow>
   \<exists>sg. \<not> rejected sg \<and> add_discovered_company (Some m) loc web srv em cd s =
     (sg, s\<lparr> discovered_companies := discovered_companies s @
        [\<lparr> name = strip m, location = strip loc, website = strip web,
                 services = strip srv, email = strip em, contact_details = strip cd,
                 detailed_report = [] \<rparr>] \<rparr>)"
  using name_exists_iff[of m "discovered_companies s"] by (auto simp: strip_def Let_def)

lemma folded_name_new:
  "folded_name \<lparr> name = strip m, location = a, website = b, services = c, email = d,
      contact_details = e, detailed_report = f \<rparr> = lower (strip m)"
  by (simp add: folded_name_def strip_strip)

lemma add_cases:
  obtains (unchanged) "rejected (fst (add_discovered_company n loc web srv em cd s))"
      "snd (add_discovered_company n loc web srv em cd s) = s"
  | (appended) m c where "n = Some m" "strip m \<noteq> []"
      "\<not> len_ge_target (discovered_companies s) (TARGET_COMPANIES s)"
      "lower (strip m) \<notin> set (map folded_name (discovered_companies s))"
      "folded_name c = lower (strip m)" "name c = strip m" "detailed_report c = []"
      "\<not> rejected (fst (add_discovered_company n loc web srv em cd s))"
      "snd (add_discovered_company n loc web srv em cd s) =
         s\<lparr> discovered_companies := discovered_companies s @ [c] \<rparr>"
proof (cases n)
  case None
  then show ?thesis using unchanged by simp
next
  case (Some m)
  show ?thesis
  proof (cases "strip m = []")
    case True
    then show ?thesis using unchanged Some add_name_required[of n] by simp
  next
    case nb: False
    show ?thesis
    proof (cases "len_ge_target (discovered_companies s) (TARGET_COMPANIES s)")
      case True
      then show ?thesis using unchanged Some nb add_target_reached[of m s] by simp
    next
      case nt: False
      show ?thesis
      proof (cases "lower (strip m) \<in> set (map folded_name (discovered_companies s))")
        case True
        then show ?thesis using unchanged Some nb nt add_already_exists[of m s] by simp
      next
        case False
        from add_appends[OF nb nt False, of loc web srv em cd]
        obtain sg where "\<not> rejected sg"
          "add_discovered_company (Some m) loc web srv em cd s =
            (sg, s\<lparr> discovered_companies := discovered_companies s @
        [\<lparr> name = strip m, location = strip loc, website = strip web,
                 services = strip srv, email = strip em, contact_details = strip cd,
                 detailed_report = [] \<rparr>] \<rparr>)" by blast
        then show ?thesis
          using appended[of m "\<lparr> name = strip m, location = strip loc, website = strip web,
                 services = strip srv, email = strip em, contact_details = strip cd,
                 detailed_report = [] \<rparr>"] Some nb nt False
          by (simp add: folded_name_new)
      qed
    qed
  qed
qed

lemma add_keeps_distinct:
  assumes "distinct (map folded_name (discovered_companies s))"
  shows "distinct (map folded_name
           (discovered_companies (snd (add_discovered_company n loc web srv em cd s))))"
  using assms by (cases n loc web srv em cd s rule: add_cases) auto

lemma call_tools_distinct:
  "distinct (map folded_name (discovered_companies s)) \<Longrightarrow>
   distinct (map folded_name (discovered_companies (call_tools calls s)))"
proof (induction calls arbitrary: s)
  case Nil
  then show ?case by simp
next
  case (Cons c calls)
  obtain n loc web srv em cd where c: "c = AddDiscoveredCompany n loc web srv em cd"
    by (cases c)
  show ?case using Cons.IH[OF add_keeps_distinct[OF Cons.prems, of n loc web srv em cd]]
    by (simp add: c)
qed


lemma add_keeps_target:
  "TARGET_COMPANIES (snd (add_discovered_company n loc web srv em cd s)) = TARGET_COMPANIES s"
  by (cases n loc web srv em cd s rule: add_cases) auto

lemma add_keeps_bound:
  assumes "TARGET_COMPANIES s = Count c" and "int (length (discovered_companies s)) \<le> c"
  shows "int (length (discovered_companies (snd (add_discovered_company n loc web srv em cd s)))) \<le> c"
  using assms by (cases n loc web srv em cd s rule: add_cases) (auto simp: len_ge_target_def)

lemma call_tools_bound:
  "TARGET_COMPANIES s = Count c \<Longrightarrow> int (length (discovered_companies s)) \<le> c \<Longrightarrow>
   int (length (discovered_companies (call_tools calls s))) \<le> c"
proof (induction calls arbitrary: s)
  case Nil
  then show ?case by simp
next
  case (Cons call calls)
  obtain n loc web srv em cd where c: "call = AddDiscoveredCompany n loc web srv em cd"
    by (cases call)
  have "TARGET_COMPANIES (snd (call_tool call s)) = Count c"
    using Cons.prems(1) by (simp add: c add_keeps_target)
  moreover have "int (length (discovered_companies (snd (call_tool call s)))) \<le> c"
    using add_keeps_bound[OF Cons.prems] by (simp add: c)
  ultimately show ?case using Cons.IH by simp
qed

lemma add_at_target:
  assumes "TARGET_COMPANIES s = Count c" and "int (length (discovered_companies s)) = c"
  shows "rejected (fst (add_discovered_company n loc web srv em cd s))
       \<and> snd (add_discovered_company n loc web srv em cd s) = s"
  using assms by (cases n loc web srv em cd s rule: add_cases) (auto simp: len_ge_target_def)

subsection \<open>Names are unique\<close>

text \<open>
  Claim C1. Whatever calls of \<^verbatim>\<open>add_discovered_company\<close> are made from the start of a
  run, no two records of the registry have the same name after trimming and case folding;
  more generally, in a registry whose folded names differ they still differ after any run
  of calls. And a candidate whose trimmed, case-folded name is that of a record of the
  registry is rejected, the state being left as it was.
\<close>
theorem registry_names_unique:
  "distinct (map folded_name (discovered_companies (call_tools calls (initial_state tg))))
   \<and> (distinct (map folded_name (discovered_companies s)) \<longrightarrow>
        distinct (map folded_name (discovered_companies (call_tools calls s))))
   \<and> (lower (strip n) \<in> set (map folded_name (discovered_companies s)) \<longrightarrow>
        rejected (fst (add_discovered_company (Some n) loc web srv em cd s))
        \<and> snd (add_discovered_company (Some n) loc web srv em cd s) = s)"
proof (intro conjI impI)
  have "distinct (map folded_name (discovered_companies (initial_state tg)))"
    by (simp add: initial_state_def)
  then show "distinct (map folded_name (discovered_companies (call_tools calls (initial_state tg))))"
    by (rule call_tools_distinct)
next
  assume "distinct (map folded_name (discovered_companies s))"
  then show "distinct (map folded_name (discovered_companies (call_tools calls s)))"
    by (rule call_tools_distinct)
next
  assume dup: "lower (strip n) \<in> set (map folded_name (discovered_companies s))"
  show "rejected (fst (add_discovered_company (Some n) loc web srv em cd s))"
    using dup by (cases "Some n" loc web srv em cd s rule: add_cases) auto
  show "snd (add_discovered_company (Some n) loc web srv em cd s) = s"
    using dup by (cases "Some n" loc web srv em cd s rule: add_cases) auto
qed

text \<open>
  The scenario of the specification, from its second call on: the registry holds
  \<^verbatim>\<open>Acme Corp\<close>, the target is 2, and the agent offers \<^verbatim>\<open>acme corp\<close> with a trailing space,
  then \<^verbatim>\<open>Beta LLC\<close>.
\<close>

theorem registry_names_unique_witness:
  "distinct (map folded_name (discovered_companies (state_with (Count 2) [company_named ''Acme Corp''] 0)))
   \<and> lower (strip ''ACME corp  '') \<in> set (map folded_name
        (discovered_companies (state_with (Count 2) [company_named ''Acme Corp''] 0)))
   \<and> distinct (map folded_name (discovered_companies
        (call_tools [add_call ''acme corp '', add_call ''Beta LLC'']
           (state_with (Count 2) [company_named ''Acme Corp''] 0))))
   \<and> map name (discovered_companies
        (call_tools [add_call ''acme corp '', add_call ''Beta LLC'']
           (state_with (Count 2) [company_named ''Acme Corp''] 0))) = [''Acme Corp'', ''Beta LLC'']
   \<and> rejected (fst (add_discovered_company (Some ''ACME corp  '') [] [] [] [] []
        (state_with (Count 2) [company_named ''Acme Corp''] 0)))
   \<and> snd (add_discovered_company (Some ''ACME corp  '') [] [] [] [] []
        (state_with (Count 2) [company_named ''Acme Corp''] 0))
      = state_with (Count 2) [company_named ''Acme Corp''] 0"
proof -
  let ?s = "state_with (Count 2) [company_named ''Acme Corp''] 0"
  have h: "distinct (map folded_name (discovered_companies ?s))"
    by (simp add: state_with_def)
  have d: "lower (strip ''ACME corp  '') \<in> set (map folded_name (discovered_companies ?s))"
    by code_simp
  have e: "map name (discovered_companies
        (call_tools [add_call ''acme corp '', add_call ''Beta LLC''] ?s)) = [''Acme Corp'', ''Beta LLC'']"
    by code_simp
  show ?thesis
    using registry_names_unique[of "[add_call ''acme corp '', add_call ''Beta LLC'']" "Count 2" ?s
        "''ACME corp  ''" "[]" "[]" "[]" "[]" "[]"] h d e
    by blast
qed

subsection \<open>The target caps the registry\<close>

text \<open>
  Claim C2. With a finite target \<open>c\<close>, whatever calls of \<^verbatim>\<open>add_discovered_company\<close> are
  made from the start of a run, the registry never holds more than \<open>c\<close> records; more
  generally, a registry that is not above the target stays so under every run of calls.
  And when the registry holds exactly as many records as the target says, a call is
  rejected and leaves the state as it was.
\<close>

theorem registry_never_exceeds_target:
  "(0 \<le> c \<longrightarrow>
      int (length (discovered_companies (call_tools calls (initial_state (Count c))))) \<le> c)
   \<and> (TARGET_COMPANIES s = Count c \<and> int (length (discovered_companies s)) \<le> c \<longrightarrow>
      int (length (discovered_companies (call_tools calls s))) \<le> c)
   \<and> (TARGET_COMPANIES s = Count c \<and> int (length (discovered_companies s)) = c \<longrightarrow>
      rejected (fst (call_tool call s)) \<and> snd (call_tool call s) = s)"
proof (intro conjI impI)
  assume "0 \<le> c"
  then have "int (length (discovered_companies (initial_state (Count c)))) \<le> c"
    by (simp add: initial_state_def)
  moreover have "TARGET_COMPANIES (initial_state (Count c)) = Count c"
    by (simp add: initial_state_def)
  ultimately show "int (length (discovered_companies (call_tools calls (initial_state (Count c))))) \<le> c"
    by (intro call_tools_bound)
next
  assume "TARGET_COMPANIES s = Count c \<and> int (length (discovered_companies s)) \<le> c"
  then show "int (length (discovered_companies (call_tools calls s))) \<le> c"
    by (intro call_tools_bound) simp_all
next
  assume full: "TARGET_COMPANIES s = Count c \<and> int (length (discovered_companies s)) = c"
  obtain n loc web srv em cd where c: "call = AddDiscoveredCompany n loc web srv em cd"
    by (cases call)
  from full have "rejected (fst (add_discovered_company n loc web srv em cd s))
       \<and> snd (add_discovered_company n loc web srv em cd s) = s"
    by (intro add_at_target) simp_all
  then show "rejected (fst (call_tool call s))" and "snd (call_tool call s) = s"
    by (simp_all add: c)
qed

text \<open>
  A registry of two records under a target of 2: two more candidates leave it at two,
  and the first of them is rejected.
\<close>

theorem registry_never_exceeds_target_witness:
  "TARGET_COMPANIES (state_with (Count 2) [company_named ''Acme Corp'', company_named ''Beta LLC''] 0)
     = Count 2
   \<and> int (length (discovered_companies
        (state_with (Count 2) [company_named ''Acme Corp'', company_named ''Beta LLC''] 0))) = 2
   \<and> int (length (discovered_companies
        (call_tools [add_call ''Gamma Inc'', add_call ''Delta Ltd'']
           (state_with (Count 2) [company_named ''Acme Corp'', company_named ''Beta LLC''] 0)))) \<le> 2
   \<and> rejected (fst (call_tool (add_call ''Gamma Inc'')
        (state_with (Count 2) [company_named ''Acme Corp'', company_named ''Beta LLC''] 0)))
   \<and> snd (call_tool (add_call ''Gamma Inc'')
        (state_with (Count 2) [company_named ''Acme Corp'', company_named ''Beta LLC''] 0))
      = state_with (Count 2) [company_named ''Acme Corp'', company_named ''Beta LLC''] 0
   \<and> map name (discovered_companies
        (call_tools [add_call ''Acme Corp'', add_call ''Beta LLC'', add_call ''Gamma Inc'']
           (initial_state (Count 2)))) = [''Acme Corp'', ''Beta LLC'']
   \<and> int (length (discovered_companies
        (call_tools [add_call ''Acme Corp'', add_call ''Beta LLC'', add_call ''Gamma Inc'']
           (initial_state (Count 2))))) \<le> 2"
proof -
  let ?s = "state_with (Count 2) [company_named ''Acme Corp'', company_named ''Beta LLC''] 0"
  have t: "TARGET_COMPANIES ?s = Count 2"
    by (simp add: state_with_def initial_state_def)
  have l: "int (length (discovered_companies ?s)) = 2"
    by (simp add: state_with_def)
  have b: "int (length (discovered_companies ?s)) \<le> 2"
    using l by simp
  have p: "(0::int) \<le> 2"
    by simp
  have e: "map name (discovered_companies
        (call_tools [add_call ''Acme Corp'', add_call ''Beta LLC'', add_call ''Gamma Inc'']
           (initial_state (Count 2)))) = [''Acme Corp'', ''Beta LLC'']"
    by code_simp
  show ?thesis
    using registry_never_exceeds_target[of 2 "[add_call ''Gamma Inc'', add_call ''Delta Ltd'']" ?s
        "add_call ''Gamma Inc''"]
      registry_never_exceeds_target[of 2
        "[add_call ''Acme Corp'', add_call ''Beta LLC'', add_call ''Gamma Inc'']" ?s
        "add_call ''Gamma Inc''"] t l b p e
    by blast
qed

subsection \<open>The order of the rejections\<close>

text \<open>
  Claim C7, as the code has it. \<^verbatim>\<open>add_discovered_company\<close> tests the target before it
  looks for a duplicate: an absent or blank name gives the validation text; any other
  name gives the target-reached text when the registry is at or above the target, whether
  or not the name is already there; below the target a name that is already there,
  trimmed and case-folded, gives the duplicate text. The state is unchanged in the three
  cases. Any other call appends one record.
\<close>

theorem add_discovered_company_signal_order:
  "(n = None \<or> (\<exists>b. n = Some b \<and> strip b = []) \<longrightarrow>
      add_discovered_company n loc web srv em cd s = (NameRequired, s))
   \<and> (strip m \<noteq> [] \<and> len_ge_target (discovered_companies s) (TARGET_COMPANIES s) \<longrightarrow>
      add_discovered_company (Some m) loc web srv em cd s = (TargetReached (TARGET_COMPANIES s), s))
   \<and> (strip m \<noteq> [] \<and> \<not> len_ge_target (discovered_companies s) (TARGET_COMPANIES s)
        \<and> lower (strip m) \<in> set (map folded_name (discovered_companies s)) \<longrightarrow>
      add_discovered_company (Some m) loc web srv em cd s = (AlreadyExists m, s))
   \<and> (strip m \<noteq> [] \<and> \<not> len_ge_target (discovered_companies s) (TARGET_COMPANIES s)
        \<and> lower (strip m) \<notin> set (map folded_name (discovered_companies s)) \<longrightarrow>
      \<not> rejected (fst (add_discovered_company (Some m) loc web srv em cd s))
      \<and> snd (add_discovered_company (Some m) loc web srv em cd s) =
          s\<lparr> discovered_companies := discovered_companies s @
             [\<lparr> name = strip m, location = strip loc, website = strip web, services = strip srv,
                email = strip em, contact_details = strip cd, detailed_report = [] \<rparr>] \<rparr>)"
proof (intro conjI impI)
  assume "n = None \<or> (\<exists>b. n = Some b \<and> strip b = [])"
  then show "add_discovered_company n loc web srv em cd s = (NameRequired, s)"
    by (intro add_name_required) blast
next
  assume "strip m \<noteq> [] \<and> len_ge_target (discovered_companies s) (TARGET_COMPANIES s)"
  then show "add_discovered_company (Some m) loc web srv em cd s
      = (TargetReached (TARGET_COMPANIES s), s)"
    using add_target_reached[of m s loc web srv em cd] by blast
next
  assume "strip m \<noteq> [] \<and> \<not> len_ge_target (discovered_companies s) (TARGET_COMPANIES s)
        \<and> lower (strip m) \<in> set (map folded_name (discovered_companies s))"
  then show "add_discovered_company (Some m) loc web srv em cd s = (AlreadyExists m, s)"
    using add_already_exists[of m s loc web srv em cd] by blast
next
  assume a: "strip m \<noteq> [] \<and> \<not> len_ge_target (discovered_companies s) (TARGET_COMPANIES s)
        \<and> lower (strip m) \<notin> set (map folded_name (discovered_companies s))"
  then obtain sg where sg: "\<not> rejected sg"
     "add_discovered_company (Some m) loc web srv em cd s =
       (sg, s\<lparr> discovered_companies := discovered_companies s @
             [\<lparr> name = strip m, location = strip loc, website = strip web, services = strip srv,
                email = strip em, contact_details = strip cd, detailed_report = [] \<rparr>] \<rparr>)"
    using add_appends[of m s loc web srv em cd] by blast
  show "\<not> rejected (fst (add_discovered_company (Some m) loc web srv em cd s))"
    using sg by simp
  show "snd (add_discovered_company (Some m) loc web srv em cd s) =
          s\<lparr> discovered_companies := discovered_companies s @
             [\<lparr> name = strip m, location = strip loc, website = strip web, services = strip srv,
                email = strip em, contact_details = strip cd, detailed_report = [] \<rparr>] \<rparr>"
    using sg by simp
qed

text \<open>
  The four cases at work: a blank name; a duplicate offered to a full registry (target
  reached, not duplicate); the same duplicate offered below the target; a new name.
\<close>

theorem add_discovered_company_signal_order_witness:
  "add_discovered_company (Some ''   '') [] [] [] [] []
      (state_with (Count 1) [company_named ''Acme Corp''] 0)
     = (NameRequired, state_with (Count 1) [company_named ''Acme Corp''] 0)
   \<and> add_discovered_company (Some ''acme corp '') [] [] [] [] []
      (state_with (Count 1) [company_named ''Acme Corp''] 0)
     = (TargetReached (TARGET_COMPANIES (state_with (Count 1) [company_named ''Acme Corp''] 0)),
        state_with (Count 1) [company_named ''Acme Corp''] 0)
   \<and> add_discovered_company (Some ''acme corp '') [] [] [] [] []
      (state_with (Count 2) [company_named ''Acme Corp''] 0)
     = (AlreadyExists ''acme corp '', state_with (Count 2) [company_named ''Acme Corp''] 0)
   \<and> \<not> rejected (fst (add_discovered_company (Some ''Beta LLC'') [] [] [] [] []
      (state_with (Count 2) [company_named ''Acme Corp''] 0)))"
proof -
  let ?full = "state_with (Count 1) [company_named ''Acme Corp''] 0"
  let ?room = "state_with (Count 2) [company_named ''Acme Corp''] 0"
  have "strip ''   '' = []"
    by code_simp
  then have blank: "(Some ''   '' :: string option) = None \<or> (\<exists>b. Some ''   '' = Some b \<and> strip b = [])"
    by blast
  have nb: "strip ''acme corp '' \<noteq> []" "strip ''Beta LLC'' \<noteq> []"
    by code_simp+
  have full: "len_ge_target (discovered_companies ?full) (TARGET_COMPANIES ?full)"
    by code_simp
  have room: "\<not> len_ge_target (discovered_companies ?room) (TARGET_COMPANIES ?room)"
    by code_simp
  have dup: "lower (strip ''acme corp '') \<in> set (map folded_name (discovered_companies ?room))"
    by code_simp
  have new: "lower (strip ''Beta LLC'') \<notin> set (map folded_name (discovered_companies ?room))"
    by code_simp
  show ?thesis
    using add_discovered_company_signal_order[of "Some ''   ''" "[]" "[]" "[]" "[]" "[]" ?full "''acme corp ''"]
      add_discovered_company_signal_order[of None "[]" "[]" "[]" "[]" "[]" ?room "''acme corp ''"]
      add_discovered_company_signal_order[of None "[]" "[]" "[]" "[]" "[]" ?room "''Beta LLC''"]
      blank nb full room dup new
    by blast
qed

text \<open>
  Claim C7 as the specification words it fails: a name that is already in a full registry
  is answered with the target-reached text, not with the duplicate text.
\<close>

theorem duplicate_in_full_registry_counterexample:
  "strip ''acme corp '' \<noteq> []
   \<and> lower (strip ''acme corp '') \<in> set (map folded_name
        (discovered_companies (state_with (Count 1) [company_named ''Acme Corp''] 0)))
   \<and> TARGET_COMPANIES (state_with (Count 1) [company_named ''Acme Corp''] 0) = Count 1
   \<and> length (discovered_companies (state_with (Count 1) [company_named ''Acme Corp''] 0)) = 1
   \<and> fst (add_discovered_company (Some ''acme corp '') [] [] [] [] []
        (state_with (Count 1) [company_named ''Acme Corp''] 0)) = TargetReached (Count 1)
   \<and> fst (add_discovered_company (Some ''acme corp '') [] [] [] [] []
        (state_with (Count 1) [company_named ''Acme Corp''] 0)) \<noteq> AlreadyExists ''acme corp ''"
  by code_simp

section \<open>The rate limiter: properties\<close>

lemma grant_after_previous:
  "last_request_time s + MIN_REQUEST_INTERVAL \<le> last_request_time (enhanced_rate_limit t s)"
  by (simp add: enhanced_rate_limit_def Let_def MIN_REQUEST_INTERVAL_def)

lemma grant_times_after_previous:
  "g \<in> set (grant_times ts s) \<Longrightarrow> last_request_time s + MIN_REQUEST_INTERVAL \<le> g"
proof (induction ts arbitrary: s)
  case Nil
  then show ?case by simp
next
  case (Cons t ts)
  have step: "last_request_time s + MIN_REQUEST_INTERVAL \<le> last_request_time (enhanced_rate_limit t s)"
    by (rule grant_after_previous)
  from Cons.prems consider "g = last_request_time (enhanced_rate_limit t s)"
    | "g \<in> set (grant_times ts (enhanced_rate_limit t s))"
    by auto
  then show ?case
  proof cases
    case 1
    then show ?thesis using step by simp
  next
    case 2
    from Cons.IH[OF 2] step show ?thesis
      by (simp add: MIN_REQUEST_INTERVAL_def)
  qed
qed

lemma grant_times_spaced:
  "sorted_wrt (\<lambda>a b. a + MIN_REQUEST_INTERVAL \<le> b) (grant_times ts s)"
  by (induction ts arbitrary: s) (auto dest: grant_times_after_previous)

text \<open>Moments that are pairwise \<open>d\<close> apart: \<open>n\<close> of them span at least \<open>(n - 1) * d\<close>.\<close>

lemma spaced_span:
  fixes d :: real
  assumes "sorted_wrt (\<lambda>a b. a + d \<le> b) xs" and "xs \<noteq> []" and "0 \<le> d"
  shows "hd xs + real (length xs - 1) * d \<le> last xs"
  using assms
proof (induction xs)
  case Nil
  then show ?case by simp
next
  case (Cons x xs)
  show ?case
  proof (cases xs)
    case Nil
    then show ?thesis by simp
  next
    case (Cons y ys)
    have "x + d \<le> hd xs" using Cons.prems(1) Cons by simp
    moreover have "hd xs + real (length xs - 1) * d \<le> last xs"
      using Cons.IH Cons.prems Cons by simp
    ultimately show ?thesis
      using Cons by (simp add: algebra_simps)
  qed
qed

lemma spaced_window_count:
  fixes d :: real
  assumes sp: "sorted_wrt (\<lambda>a b. a + d \<le> b) xs" and "0 < d"
  shows "real (length (filter (\<lambda>g. w \<le> g \<and> g \<le> w + len) xs) - 1) * d \<le> max len 0"
proof (cases "filter (\<lambda>g. w \<le> g \<and> g \<le> w + len) xs = []")
  case True
  then show ?thesis by simp
next
  case False
  let ?ys = "filter (\<lambda>g. w \<le> g \<and> g \<le> w + len) xs"
  have "sorted_wrt (\<lambda>a b. a + d \<le> b) ?ys"
    using sp by (rule sorted_wrt_filter)
  then have span: "hd ?ys + real (length ?ys - 1) * d \<le> last ?ys"
    using False assms(2) by (intro spaced_span) simp_all
  have inside: "\<forall>g \<in> set ?ys. w \<le> g \<and> g \<le> w + len"
    by simp
  have "w \<le> hd ?ys"
    using inside hd_in_set[OF False] by blast
  moreover have "last ?ys \<le> w + len"
    using inside last_in_set[OF False] by blast
  ultimately show ?thesis using span by simp
qed

lemma grants_in_a_minute:
  "length (filter (\<lambda>g. w \<le> g \<and> g \<le> w + 60) (grant_times ts s)) \<le> 21"
proof -
  let ?n = "length (filter (\<lambda>g. w \<le> g \<and> g \<le> w + 60) (grant_times ts s))"
  have "real (?n - 1) * MIN_REQUEST_INTERVAL \<le> max 60 0"
    using grant_times_spaced[of ts s] by (intro spaced_window_count) (simp_all add: MIN_REQUEST_INTERVAL_def)
  then have "real (?n - 1) \<le> 20"
    by (simp add: MIN_REQUEST_INTERVAL_def)
  then show ?thesis by linarith
qed

lemma cap_hit_sleeps_a_minute:
  assumes "MAX_REQUESTS_PER_MINUTE \<le> request_count s" and "t - last_request_time s \<le> 60"
  shows "t + 60 \<le> last_request_time (enhanced_rate_limit t s)"
    and "request_count (enhanced_rate_limit t s) = 1"
  using assms
  by (simp_all add: enhanced_rate_limit_def Let_def MIN_REQUEST_INTERVAL_def)

lemma rate_limit_after_a_gap:
  assumes "60 < t - last_request_time s"
  shows "enhanced_rate_limit t s = s\<lparr> last_request_time := t, request_count := 1 \<rparr>"
  using assms
  by (simp add: enhanced_rate_limit_def Let_def MIN_REQUEST_INTERVAL_def MAX_REQUESTS_PER_MINUTE_def)

lemma rate_limit_below_the_cap:
  assumes "request_count s < MAX_REQUESTS_PER_MINUTE" and "t - last_request_time s \<le> 60"
  shows "enhanced_rate_limit t s
     = s\<lparr> last_request_time := max t (last_request_time s + MIN_REQUEST_INTERVAL),
          request_count := request_count s + 1 \<rparr>"
  using assms
  by (simp add: enhanced_rate_limit_def Let_def MIN_REQUEST_INTERVAL_def max_def)

lemma rate_limit_at_the_cap:
  assumes "MAX_REQUESTS_PER_MINUTE \<le> request_count s" and "t - last_request_time s \<le> 60"
  shows "enhanced_rate_limit t s
     = s\<lparr> last_request_time := max (t + 60) (last_request_time s + 60 + MIN_REQUEST_INTERVAL),
          request_count := 1 \<rparr>"
  using assms
  by (simp add: enhanced_rate_limit_def Let_def MIN_REQUEST_INTERVAL_def max_def)

lemma counter_counts_the_run:
  "calls_within_a_minute ts s \<Longrightarrow> request_count s + length ts \<le> MAX_REQUESTS_PER_MINUTE \<Longrightarrow>
   request_count (after_calls ts s) = request_count s + length ts"
proof (induction ts arbitrary: s)
  case Nil
  then show ?case by simp
next
  case (Cons t ts)
  have below: "request_count s < MAX_REQUESTS_PER_MINUTE"
    using Cons.prems(2) by simp
  have near: "t - last_request_time s \<le> 60"
    using Cons.prems(1) by simp
  have step: "request_count (enhanced_rate_limit t s) = request_count s + 1"
    by (simp add: rate_limit_below_the_cap[OF below near])
  have "request_count (after_calls ts (enhanced_rate_limit t s))
      = request_count (enhanced_rate_limit t s) + length ts"
    using Cons.prems by (intro Cons.IH) (simp_all add: step)
  then show ?case by (simp add: step)
qed

lemma grant_times_append:
  "grant_times (ts @ us) s = grant_times ts s @ grant_times us (after_calls ts s)"
  by (induction ts arbitrary: s) simp_all

lemma after_calls_append:
  "after_calls (ts @ us) s = after_calls us (after_calls ts s)"
  by (induction ts arbitrary: s) simp_all

lemma last_grant:
  "last (grant_times (ts @ [t]) s) = last_request_time (enhanced_rate_limit t (after_calls ts s))"
  by (simp add: grant_times_append)

lemma run_reaches_the_cap:
  assumes "calls_within_a_minute ts s"
    and "request_count s + length ts = MAX_REQUESTS_PER_MINUTE"
    and "t - last_request_time (after_calls ts s) \<le> 60"
  shows "request_count (after_calls ts s) = MAX_REQUESTS_PER_MINUTE"
    and "last (grant_times (ts @ [t]) s)
          = max (t + 60) (last_request_time (after_calls ts s) + 60 + MIN_REQUEST_INTERVAL)"
    and "request_count (after_calls (ts @ [t]) s) = 1"
proof -
  show full: "request_count (after_calls ts s) = MAX_REQUESTS_PER_MINUTE"
    using counter_counts_the_run[OF assms(1)] assms(2) by simp
  then have cap: "MAX_REQUESTS_PER_MINUTE \<le> request_count (after_calls ts s)"
    by simp
  show "last (grant_times (ts @ [t]) s)
          = max (t + 60) (last_request_time (after_calls ts s) + 60 + MIN_REQUEST_INTERVAL)"
    by (simp add: last_grant rate_limit_at_the_cap[OF cap assms(3)])
  show "request_count (after_calls (ts @ [t]) s) = 1"
    by (simp add: after_calls_append rate_limit_at_the_cap[OF cap assms(3)])
qed

text \<open>
  Claim C8, as the code has it. In every run of calls of the limiter, whenever the calls
  are made: two grants that follow each other are at least \<^verbatim>\<open>MIN_REQUEST_INTERVAL\<close> apart,
  and no window of 60 seconds holds more than \<^verbatim>\<open>MAX_REQUESTS_PER_MINUTE\<close> grants. The
  sleep of 60 seconds is not the rest of a window. The limiter counts the grants since its
  counter was last set back: a call that enters more than 60 seconds after the grant
  before it is granted at once and sets the counter to one; a call that finds the counter
  below the cap is granted as soon as the minimum interval allows and adds one to it;
  a call that finds it at the cap sleeps 60 seconds, then what the minimum interval still
  asks for, and sets it to one. So in a run without such a gap that takes the counter to
  the cap, the next call is granted 60 seconds or more after it was made.
\<close>

theorem rate_limit_spacing_and_cap:
  "successively (\<lambda>a b. a + MIN_REQUEST_INTERVAL \<le> b) (grant_times ts s)
   \<and> (\<forall>w. length (filter (\<lambda>g. w \<le> g \<and> g \<le> w + 60) (grant_times ts s))
          \<le> MAX_REQUESTS_PER_MINUTE)
   \<and> (60 < t - last_request_time s \<longrightarrow>
        enhanced_rate_limit t s = s\<lparr> last_request_time := t, request_count := 1 \<rparr>)
   \<and> (request_count s < MAX_REQUESTS_PER_MINUTE \<and> t - last_request_time s \<le> 60 \<longrightarrow>
        enhanced_rate_limit t s
          = s\<lparr> last_request_time := max t (last_request_time s + MIN_REQUEST_INTERVAL),
               request_count := request_count s + 1 \<rparr>)
   \<and> (MAX_REQUESTS_PER_MINUTE \<le> request_count s \<and> t - last_request_time s \<le> 60 \<longrightarrow>
        enhanced_rate_limit t s
          = s\<lparr> last_request_time := max (t + 60) (last_request_time s + 60 + MIN_REQUEST_INTERVAL),
               request_count := 1 \<rparr>)
   \<and> (calls_within_a_minute ts s \<and> request_count s + length ts = MAX_REQUESTS_PER_MINUTE
        \<and> t - last_request_time (after_calls ts s) \<le> 60 \<longrightarrow>
        request_count (after_calls ts s) = MAX_REQUESTS_PER_MINUTE
        \<and> last (grant_times (ts @ [t]) s)
            = max (t + 60) (last_request_time (after_calls ts s) + 60 + MIN_REQUEST_INTERVAL)
        \<and> t + 60 \<le> last (grant_times (ts @ [t]) s)
        \<and> request_count (after_calls (ts @ [t]) s) = 1)"
proof (intro conjI allI impI)
  show "successively (\<lambda>a b. a + MIN_REQUEST_INTERVAL \<le> b) (grant_times ts s)"
    using grant_times_spaced by (rule successively_if_sorted_wrt)
next
  fix w
  show "length (filter (\<lambda>g. w \<le> g \<and> g \<le> w + 60) (grant_times ts s))
          \<le> MAX_REQUESTS_PER_MINUTE"
    using grants_in_a_minute[of w ts s] by (simp add: MAX_REQUESTS_PER_MINUTE_def)
next
  assume "60 < t - last_request_time s"
  then show "enhanced_rate_limit t s = s\<lparr> last_request_time := t, request_count := 1 \<rparr>"
    by (rule rate_limit_after_a_gap)
next
  assume "request_count s < MAX_REQUESTS_PER_MINUTE \<and> t - last_request_time s \<le> 60"
  then show "enhanced_rate_limit t s
          = s\<lparr> last_request_time := max t (last_request_time s + MIN_REQUEST_INTERVAL),
               request_count := request_count s + 1 \<rparr>"
    by (intro rate_limit_below_the_cap) simp_all
next
  assume "MAX_REQUESTS_PER_MINUTE \<le> request_count s \<and> t - last_request_time s \<le> 60"
  then show "enhanced_rate_limit t s
          = s\<lparr> last_request_time := max (t + 60) (last_request_time s + 60 + MIN_REQUEST_INTERVAL),
               request_count := 1 \<rparr>"
    by (intro rate_limit_at_the_cap) simp_all
next
  assume a: "calls_within_a_minute ts s \<and> request_count s + length ts = MAX_REQUESTS_PER_MINUTE
        \<and> t - last_request_time (after_calls ts s) \<le> 60"
  then have w: "calls_within_a_minute ts s"
    and n: "request_count s + length ts = MAX_REQUESTS_PER_MINUTE"
    and g: "t - last_request_time (after_calls ts s) \<le> 60"
    by simp_all
  show "request_count (after_calls ts s) = MAX_REQUESTS_PER_MINUTE"
    by (rule run_reaches_the_cap(1)[OF w n g])
  show l: "last (grant_times (ts @ [t]) s)
            = max (t + 60) (last_request_time (after_calls ts s) + 60 + MIN_REQUEST_INTERVAL)"
    by (rule run_reaches_the_cap(2)[OF w n g])
  show "t + 60 \<le> last (grant_times (ts @ [t]) s)"
    unfolding l by simp
  show "request_count (after_calls (ts @ [t]) s) = 1"
    by (rule run_reaches_the_cap(3)[OF w n g])
qed

text \<open>
  A burst of 26 calls, all entering at clock 1000, from the state the module starts in.
  The first finds the last grant more than 60 seconds old and is granted at once; the
  next 24 are granted 3 seconds apart, the last of them at 1072, and take the counter to
  25; the 26th sleeps 60 seconds and is granted at 1135.
\<close>

theorem rate_limit_spacing_and_cap_witness:
  "60 < 1000 - last_request_time (initial_state Unlimited)
   \<and> enhanced_rate_limit 1000 (initial_state Unlimited)
       = (initial_state Unlimited)\<lparr> last_request_time := 1000, request_count := 1 \<rparr>
   \<and> calls_within_a_minute (replicate 24 1000) (enhanced_rate_limit 1000 (initial_state Unlimited))
   \<and> request_count (enhanced_rate_limit 1000 (initial_state Unlimited)) + length (replicate 24 (1000::real))
       = MAX_REQUESTS_PER_MINUTE
   \<and> last_request_time (after_calls (replicate 24 1000)
        (enhanced_rate_limit 1000 (initial_state Unlimited))) = 1072
   \<and> request_count (after_calls (replicate 24 1000)
        (enhanced_rate_limit 1000 (initial_state Unlimited))) = MAX_REQUESTS_PER_MINUTE
   \<and> last (grant_times (replicate 24 1000 @ [1000])
        (enhanced_rate_limit 1000 (initial_state Unlimited))) = 1135
   \<and> last (grant_times (replicate 26 1000) (initial_state Unlimited)) = 1135
   \<and> 1000 + 60 \<le> last (grant_times (replicate 24 1000 @ [1000])
        (enhanced_rate_limit 1000 (initial_state Unlimited)))
   \<and> successively (\<lambda>a b. a + MIN_REQUEST_INTERVAL \<le> b)
        (grant_times (replicate 26 1000) (initial_state Unlimited))"
proof -
  let ?s0 = "initial_state Unlimited"
  let ?s1 = "enhanced_rate_limit 1000 ?s0"
  have gap: "60 < 1000 - last_request_time ?s0"
    by (simp add: initial_state_def)
  have near: "calls_within_a_minute (replicate 24 1000) ?s1"
    by code_simp
  have count: "request_count ?s1 + length (replicate 24 (1000::real)) = MAX_REQUESTS_PER_MINUTE"
    by code_simp
  have at72: "last_request_time (after_calls (replicate 24 1000) ?s1) = 1072"
    by code_simp
  have still: "1000 - last_request_time (after_calls (replicate 24 1000) ?s1) \<le> 60"
    by (simp add: at72)
  have whole: "last (grant_times (replicate 26 1000) ?s0) = 1135"
    by code_simp
  have v: "max (1000 + 60) (1072 + 60 + MIN_REQUEST_INTERVAL) = 1135"
    by (simp add: MIN_REQUEST_INTERVAL_def)
  note first = rate_limit_spacing_and_cap[of "replicate 26 1000" ?s0 1000]
  note burst = rate_limit_spacing_and_cap[of "replicate 24 1000" ?s1 1000]
  show ?thesis
    using first burst gap near count still whole
    unfolding at72 v
    by blast
qed

text \<open>
  Claim C8 as the specification words it fails where it says that the limiter sleeps the
  rest of the window when the cap is hit. Twenty-five calls 3 seconds apart, from 1000
  to 1072, are granted as they enter. A call at 1073 then sleeps 60 seconds (it is
  granted at 1135, the minimum interval adding 2), although the 60 seconds before it
  hold 20 grants only, and the minute that began with the first grant is over.
\<close>

theorem rate_limit_flat_minute_counterexample:
  "grant_times (map (\<lambda>k. 1000 + 3 * real k) [0..<25]) (initial_state Unlimited)
     = map (\<lambda>k. 1000 + 3 * real k) [0..<25]
   \<and> request_count (after_calls (map (\<lambda>k. 1000 + 3 * real k) [0..<25]) (initial_state Unlimited))
       = 25
   \<and> length (filter (\<lambda>g. 1013 \<le> g \<and> g \<le> 1013 + 60)
        (grant_times (map (\<lambda>k. 1000 + 3 * real k) [0..<25]) (initial_state Unlimited))) = 20
   \<and> hd (grant_times (map (\<lambda>k. 1000 + 3 * real k) [0..<25]) (initial_state Unlimited)) + 60 < 1073
   \<and> last (grant_times (map (\<lambda>k. 1000 + 3 * real k) [0..<25] @ [1073]) (initial_state Unlimited))
       = 1135"
  by code_simp


section \<open>What the tool and the limiter leave alone\<close>

lemma add_appends_only:
  "\<exists>ext. snd (add_discovered_company n loc web srv em cd s)
      = s\<lparr> discovered_companies := discovered_companies s @ ext \<rparr>"
proof (cases n loc web srv em cd s rule: add_cases)
  case unchanged
  then have "snd (add_discovered_company n loc web srv em cd s)
      = s\<lparr> discovered_companies := discovered_companies s @ [] \<rparr>"
    by simp
  then show ?thesis by blast
next
  case (appended m c)
  then show ?thesis by blast
qed

lemma call_tools_appends_only:
  "\<exists>ext. call_tools calls s = s\<lparr> discovered_companies := discovered_companies s @ ext \<rparr>"
proof (induction calls arbitrary: s)
  case Nil
  have "call_tools [] s = s\<lparr> discovered_companies := discovered_companies s @ [] \<rparr>"
    by simp
  then show ?case by blast
next
  case (Cons call calls)
  obtain n loc web srv em cd where c: "call = AddDiscoveredCompany n loc web srv em cd"
    by (cases call)
  obtain e1 where e1: "snd (call_tool call s) = s\<lparr> discovered_companies := discovered_companies s @ e1 \<rparr>"
    using add_appends_only[of n loc web srv em cd s] by (auto simp: c)
  obtain e2 where e2: "call_tools calls (snd (call_tool call s))
      = (snd (call_tool call s))\<lparr> discovered_companies :=
            discovered_companies (snd (call_tool call s)) @ e2 \<rparr>"
    using Cons.IH by blast
  have "call_tools (call # calls) s = s\<lparr> discovered_companies := discovered_companies s @ (e1 @ e2) \<rparr>"
    using e2 by (simp add: e1)
  then show ?case by blast
qed

lemma rate_limit_fields [simp]:
  "discovered_companies (enhanced_rate_limit t s) = discovered_companies s"
  "current_research_index (enhanced_rate_limit t s) = current_research_index s"
  "csv_file (enhanced_rate_limit t s) = csv_file s"
  "TARGET_COMPANIES (enhanced_rate_limit t s) = TARGET_COMPANIES s"
  "discovery_complete (enhanced_rate_limit t s) = discovery_complete s"
  by (simp_all add: enhanced_rate_limit_def Let_def)

lemma rate_limit_changes_state: "enhanced_rate_limit t s \<noteq> s"
proof
  assume "enhanced_rate_limit t s = s"
  then have "last_request_time (enhanced_rate_limit t s) = last_request_time s"
    by simp
  then show False
    using grant_after_previous[of s t] by (simp add: MIN_REQUEST_INTERVAL_def)
qed

section \<open>The research node: properties\<close>

lemma research_node_complete:
  assumes "length (discovered_companies s) \<le> current_research_index s"
  shows "research_node t run w s = (''ALL_RESEARCH_COMPLETE'', enhanced_rate_limit t s)"
  using assms by (simp add: research_node_def Let_def)

lemma research_node_raises:
  assumes "current_research_index s < length (discovered_companies s)"
    and "outcome run = Raises e \<or> outcome run = NoMessages e"
  shows "research_node t run w s
     = (''RESEARCH_ERROR: '' @ ''Research error: '' @ e,
        call_tools (tools_called run) (enhanced_rate_limit t s))"
  using assms by (auto simp add: research_node_def Let_def)

lemma research_node_returns:
  assumes "current_research_index s < length (discovered_companies s)"
    and "outcome run = LastMessage r"
  obtains ext where
    "research_node t run w s =
       (''RESEARCH_PROGRESS'',
        (enhanced_rate_limit t s)
          \<lparr> discovered_companies :=
               (discovered_companies s @ ext)
                 [current_research_index s :=
                    (discovered_companies s ! current_research_index s)\<lparr> detailed_report := r \<rparr>],
            csv_file :=
               (if w then csv_file s @
                    [csv_row ((discovered_companies s ! current_research_index s)\<lparr> detailed_report := r \<rparr>)]
                else csv_file s),
            current_research_index := current_research_index s + 1 \<rparr>)"
proof -
  obtain ext where ext: "call_tools (tools_called run) (enhanced_rate_limit t s)
      = (enhanced_rate_limit t s)\<lparr> discovered_companies :=
           discovered_companies (enhanced_rate_limit t s) @ ext \<rparr>"
    using call_tools_appends_only by blast
  have "research_node t run w s =
       (''RESEARCH_PROGRESS'',
        (enhanced_rate_limit t s)
          \<lparr> discovered_companies :=
               (discovered_companies s @ ext)
                 [current_research_index s :=
                    (discovered_companies s ! current_research_index s)\<lparr> detailed_report := r \<rparr>],
            csv_file :=
               (if w then csv_file s @
                    [csv_row ((discovered_companies s ! current_research_index s)\<lparr> detailed_report := r \<rparr>)]
                else csv_file s),
            current_research_index := current_research_index s + 1 \<rparr>)"
    using assms by (simp add: research_node_def Let_def ext add_company_to_csv_def)
  then show ?thesis by (rule that)
qed

lemma py_in_front: "py_in sub (sub @ post)"
proof (cases "sub @ post")
  case Nil
  then show ?thesis by simp
next
  case (Cons a list)
  have "take (length sub) (sub @ post) = sub"
    by simp
  then have "py_in sub (a # list)"
    unfolding Cons by simp
  then show ?thesis
    by (simp only: Cons)
qed

lemma py_in_middle: "py_in sub (pre @ sub @ post)"
  by (induction pre) (simp_all add: py_in_front)

lemma error_marker_ends:
  "should_continue (''RESEARCH_ERROR: '' @ ''Research error: '' @ e) s = END"
  "should_continue (''DISCOVERY_ERROR: '' @ ''Discovery error: '' @ e) s = END"
proof -
  have "py_in ''ERROR'' (''RESEARCH_'' @ ''ERROR'' @ ('': Research error: '' @ e))"
    by (rule py_in_middle)
  then show "should_continue (''RESEARCH_ERROR: '' @ ''Research error: '' @ e) s = END"
    by (simp add: should_continue_def)
  have "py_in ''ERROR'' (''DISCOVERY_'' @ ''ERROR'' @ ('': Discovery error: '' @ e))"
    by (rule py_in_middle)
  then show "should_continue (''DISCOVERY_ERROR: '' @ ''Discovery error: '' @ e) s = END"
    by (simp add: should_continue_def)
qed

lemma plain_markers:
  "should_continue ''DISCOVERY_COMPLETE'' s
     = (if discovered_companies s \<noteq> [] then Research else END)"
  "should_continue ''RESEARCH_PROGRESS'' s
     = (if current_research_index s < length (discovered_companies s) then Research else END)"
  "should_continue ''ALL_RESEARCH_COMPLETE'' s = END"
  by (simp_all add: should_continue_def)

lemma research_phase_END:
  "should_continue marker s = END \<Longrightarrow> research_phase envs marker s = (marker, s)"
  by (cases envs) auto

lemma research_node_cursor_mono:
  "current_research_index s \<le> current_research_index (snd (research_node t run w s))"
proof (cases "current_research_index s < length (discovered_companies s)")
  case False
  then show ?thesis by (simp add: research_node_complete)
next
  case True
  obtain ext where ext: "call_tools (tools_called run) (enhanced_rate_limit t s)
      = (enhanced_rate_limit t s)\<lparr> discovered_companies :=
           discovered_companies (enhanced_rate_limit t s) @ ext \<rparr>"
    using call_tools_appends_only by blast
  show ?thesis
  proof (cases "outcome run")
    case (Raises e)
    then show ?thesis using True ext by (simp add: research_node_raises)
  next
    case (NoMessages e)
    then show ?thesis using True ext by (simp add: research_node_raises)
  next
    case (LastMessage r)
    from research_node_returns[OF True LastMessage, of t w] obtain ext' where
      "research_node t run w s =
       (''RESEARCH_PROGRESS'',
        (enhanced_rate_limit t s)
          \<lparr> discovered_companies :=
               (discovered_companies s @ ext')
                 [current_research_index s :=
                    (discovered_companies s ! current_research_index s)\<lparr> detailed_report := r \<rparr>],
            csv_file :=
               (if w then csv_file s @
                    [csv_row ((discovered_companies s ! current_research_index s)\<lparr> detailed_report := r \<rparr>)]
                else csv_file s),
            current_research_index := current_research_index s + 1 \<rparr>)" .
    then show ?thesis by simp
  qed
qed

lemma research_node_cursor_bound:
  assumes "current_research_index s \<le> length (discovered_companies s)"
  shows "current_research_index (snd (research_node t run w s))
     \<le> length (discovered_companies (snd (research_node t run w s)))"
proof (cases "current_research_index s < length (discovered_companies s)")
  case False
  then show ?thesis using assms by (simp add: research_node_complete)
next
  case True
  obtain ext where ext: "call_tools (tools_called run) (enhanced_rate_limit t s)
      = (enhanced_rate_limit t s)\<lparr> discovered_companies :=
           discovered_companies (enhanced_rate_limit t s) @ ext \<rparr>"
    using call_tools_appends_only by blast
  show ?thesis
  proof (cases "outcome run")
    case (Raises e)
    then show ?thesis using True ext by (simp add: research_node_raises)
  next
    case (NoMessages e)
    then show ?thesis using True ext by (simp add: research_node_raises)
  next
    case (LastMessage r)
    from research_node_returns[OF True LastMessage, of t w] obtain ext' where
      "research_node t run w s =
       (''RESEARCH_PROGRESS'',
        (enhanced_rate_limit t s)
          \<lparr> discovered_companies :=
               (discovered_companies s @ ext')
                 [current_research_index s :=
                    (discovered_companies s ! current_research_index s)\<lparr> detailed_report := r \<rparr>],
            csv_file :=
               (if w then csv_file s @
                    [csv_row ((discovered_companies s ! current_research_index s)\<lparr> detailed_report := r \<rparr>)]
                else csv_file s),
            current_research_index := current_research_index s + 1 \<rparr>)" .
    then show ?thesis using True by simp
  qed
qed

lemma research_node_complete_iff:
  "fst (research_node t run w s) = ''ALL_RESEARCH_COMPLETE''
     \<longleftrightarrow> length (discovered_companies s) \<le> current_research_index s"
proof (cases "current_research_index s < length (discovered_companies s)")
  case False
  then show ?thesis by (simp add: research_node_complete)
next
  case True
  show ?thesis
  proof (cases "outcome run")
    case (Raises e)
    then show ?thesis using True by (simp add: research_node_raises)
  next
    case (NoMessages e)
    then show ?thesis using True by (simp add: research_node_raises)
  next
    case (LastMessage r)
    from research_node_returns[OF True LastMessage, of t w] obtain ext' where
      "research_node t run w s =
       (''RESEARCH_PROGRESS'',
        (enhanced_rate_limit t s)
          \<lparr> discovered_companies :=
               (discovered_companies s @ ext')
                 [current_research_index s :=
                    (discovered_companies s ! current_research_index s)\<lparr> detailed_report := r \<rparr>],
            csv_file :=
               (if w then csv_file s @
                    [csv_row ((discovered_companies s ! current_research_index s)\<lparr> detailed_report := r \<rparr>)]
                else csv_file s),
            current_research_index := current_research_index s + 1 \<rparr>)" .
    then show ?thesis using True by simp
  qed
qed

lemma research_phase_cursor_mono:
  "current_research_index s \<le> current_research_index (snd (research_phase envs marker s))"
proof (induction envs arbitrary: marker s)
  case Nil
  then show ?case by simp
next
  case (Cons env envs)
  obtain t run w where env: "env = (t, run, w)"
    by (cases env)
  show ?case
  proof (cases "should_continue marker s")
    case END
    then show ?thesis by (simp add: env)
  next
    case Research
    have "current_research_index s \<le> current_research_index (snd (research_node t run w s))"
      by (rule research_node_cursor_mono)
    also have "\<dots> \<le> current_research_index (snd (research_phase envs
        (fst (research_node t run w s)) (snd (research_node t run w s))))"
      by (rule Cons.IH)
    finally show ?thesis using Research by (simp add: env)
  qed
qed

subsection \<open>A research phase from the start of the registry\<close>

lemma research_node_marker_cases:
  "(fst (research_node t run w s) = ''ALL_RESEARCH_COMPLETE''
      \<and> length (discovered_companies s) \<le> current_research_index s)
   \<or> (fst (research_node t run w s) = ''RESEARCH_PROGRESS''
      \<and> current_research_index s < length (discovered_companies s))
   \<or> (py_in ''ERROR'' (fst (research_node t run w s))
      \<and> current_research_index s < length (discovered_companies s))"
proof (cases "current_research_index s < length (discovered_companies s)")
  case False
  then show ?thesis by (simp add: research_node_complete)
next
  case True
  have err: "py_in ''ERROR'' (''RESEARCH_ERROR: '' @ ''Research error: '' @ e)" for e
  proof -
    have "py_in ''ERROR'' (''RESEARCH_'' @ ''ERROR'' @ ('': Research error: '' @ e))"
      by (rule py_in_middle)
    then show ?thesis by simp
  qed
  show ?thesis
  proof (cases "outcome run")
    case (Raises e)
    then have "fst (research_node t run w s) = ''RESEARCH_ERROR: '' @ ''Research error: '' @ e"
      using True research_node_raises[of s run e t w] by simp
    then show ?thesis using True err[of e] by simp
  next
    case (NoMessages e)
    then have "fst (research_node t run w s) = ''RESEARCH_ERROR: '' @ ''Research error: '' @ e"
      using True research_node_raises[of s run e t w] by simp
    then show ?thesis using True err[of e] by simp
  next
    case (LastMessage r)
    have "fst (research_node t run w s) = ''RESEARCH_PROGRESS''"
      by (rule research_node_returns[OF True LastMessage, of t w]) simp
    then show ?thesis using True by simp
  qed
qed

text \<open>
  What holds of the marker and the state all along a phase that starts on
  \<^verbatim>\<open>DISCOVERY_COMPLETE\<close> with the cursor at 0: the cursor is within the registry, and the
  marker is the discovery marker (the cursor still at 0), the progress marker or an error
  marker.
\<close>

lemma research_phase_keeps:
  assumes "current_research_index s \<le> length (discovered_companies s)"
    and "(marker = ''DISCOVERY_COMPLETE'' \<and> current_research_index s = 0)
         \<or> marker = ''RESEARCH_PROGRESS'' \<or> py_in ''ERROR'' marker"
  shows "current_research_index (snd (research_phase envs marker s))
           \<le> length (discovered_companies (snd (research_phase envs marker s)))
       \<and> ((fst (research_phase envs marker s) = ''DISCOVERY_COMPLETE''
              \<and> current_research_index (snd (research_phase envs marker s)) = 0)
           \<or> fst (research_phase envs marker s) = ''RESEARCH_PROGRESS''
           \<or> py_in ''ERROR'' (fst (research_phase envs marker s)))"
  using assms
proof (induction envs arbitrary: marker s)
  case Nil
  then show ?case by simp
next
  case (Cons env envs)
  obtain t run w where env: "env = (t, run, w)"
    by (cases env)
  show ?case
  proof (cases "should_continue marker s")
    case END
    then show ?thesis using Cons.prems by (simp add: env)
  next
    case Research
    have on_record: "current_research_index s < length (discovered_companies s)"
    proof -
      from Cons.prems(2) consider
        "marker = ''DISCOVERY_COMPLETE'' \<and> current_research_index s = 0"
        | "marker = ''RESEARCH_PROGRESS''" | "py_in ''ERROR'' marker"
        by blast
      then show ?thesis
      proof cases
        case 1
        then show ?thesis using Research by (simp add: plain_markers(1) split: if_splits)
      next
        case 2
        then show ?thesis using Research by (simp add: plain_markers(2) split: if_splits)
      next
        case 3
        then have "should_continue marker s = END"
          by (simp add: should_continue_def)
        then show ?thesis using Research by simp
      qed
    qed
    have bound: "current_research_index (snd (research_node t run w s))
        \<le> length (discovered_companies (snd (research_node t run w s)))"
      using Cons.prems(1) by (rule research_node_cursor_bound)
    have marker': "(fst (research_node t run w s) = ''DISCOVERY_COMPLETE''
           \<and> current_research_index (snd (research_node t run w s)) = 0)
         \<or> fst (research_node t run w s) = ''RESEARCH_PROGRESS''
         \<or> py_in ''ERROR'' (fst (research_node t run w s))"
      using research_node_marker_cases[of t run w s] on_record by auto
    from Cons.IH[OF bound marker'] show ?thesis
      using Research by (simp add: env)
  qed
qed

lemma research_phase_never_reports_complete:
  assumes "current_research_index s = 0"
  shows "fst (research_phase envs ''DISCOVERY_COMPLETE'' s) \<noteq> ''ALL_RESEARCH_COMPLETE''"
proof -
  have "(fst (research_phase envs ''DISCOVERY_COMPLETE'' s) = ''DISCOVERY_COMPLETE''
              \<and> current_research_index (snd (research_phase envs ''DISCOVERY_COMPLETE'' s)) = 0)
           \<or> fst (research_phase envs ''DISCOVERY_COMPLETE'' s) = ''RESEARCH_PROGRESS''
           \<or> py_in ''ERROR'' (fst (research_phase envs ''DISCOVERY_COMPLETE'' s))"
    using research_phase_keeps[of s "''DISCOVERY_COMPLETE''" envs] assms by simp
  moreover have "\<not> py_in ''ERROR'' ''ALL_RESEARCH_COMPLETE''"
    by simp
  ultimately show ?thesis by auto
qed

lemma research_phase_ends_at_the_length:
  assumes "current_research_index s = 0"
    and "should_continue (fst (research_phase envs ''DISCOVERY_COMPLETE'' s))
           (snd (research_phase envs ''DISCOVERY_COMPLETE'' s)) = END"
    and "\<not> py_in ''ERROR'' (fst (research_phase envs ''DISCOVERY_COMPLETE'' s))"
  shows "current_research_index (snd (research_phase envs ''DISCOVERY_COMPLETE'' s))
       = length (discovered_companies (snd (research_phase envs ''DISCOVERY_COMPLETE'' s)))"
proof -
  define m' where "m' = fst (research_phase envs ''DISCOVERY_COMPLETE'' s)"
  define s' where "s' = snd (research_phase envs ''DISCOVERY_COMPLETE'' s)"
  have keeps: "current_research_index s' \<le> length (discovered_companies s')
       \<and> ((m' = ''DISCOVERY_COMPLETE'' \<and> current_research_index s' = 0)
           \<or> m' = ''RESEARCH_PROGRESS'' \<or> py_in ''ERROR'' m')"
    unfolding m'_def s'_def
    using research_phase_keeps[of s "''DISCOVERY_COMPLETE''" envs] assms(1) by simp
  have stop: "should_continue m' s' = END" and fine: "\<not> py_in ''ERROR'' m'"
    using assms(2,3) by (simp_all add: m'_def s'_def)
  from keeps fine consider "m' = ''DISCOVERY_COMPLETE'' \<and> current_research_index s' = 0"
    | "m' = ''RESEARCH_PROGRESS''"
    by blast
  then have "current_research_index s' = length (discovered_companies s')"
  proof cases
    case 1
    then have "discovered_companies s' = []"
      using stop by (simp add: plain_markers(1) split: if_splits)
    then show ?thesis using 1 by simp
  next
    case 2
    then have "\<not> current_research_index s' < length (discovered_companies s')"
      using stop by (simp add: plain_markers(2) split: if_splits)
    then show ?thesis using keeps by simp
  qed
  then show ?thesis by (simp add: s'_def)
qed

subsection \<open>One record per invocation\<close>

text \<open>
  Claim C4, as the code has it. \<^verbatim>\<open>research_node\<close> acquires the rate limiter before it
  looks at the cursor. With the cursor at or past the end of the registry it emits
  \<^verbatim>\<open>ALL_RESEARCH_COMPLETE\<close> and leaves the registry, the cursor and the file as they were
  (the limiter's two globals are updated). With the cursor on a record and an agent that
  returns a text, it stores that text, unchanged, as the \<^verbatim>\<open>detailed_report\<close> of that
  record and of no other, appends the row of that record to the file when the file can be
  written, moves the cursor on by one and emits \<^verbatim>\<open>RESEARCH_PROGRESS\<close>. So the cursor
  never goes back, over one invocation or over a research phase, and it stays within the
  registry. A research phase that starts on \<^verbatim>\<open>DISCOVERY_COMPLETE\<close> with the cursor at 0 and
  ends normally (\<^verbatim>\<open>should_continue\<close> answers \<^verbatim>\<open>END\<close> on a marker that is no error marker)
  leaves the cursor at the length of the registry; such a phase never emits
  \<^verbatim>\<open>ALL_RESEARCH_COMPLETE\<close>, since the node is not run again once the cursor has reached
  the end. An invocation that does emit it has the cursor at the length as well.
\<close>

theorem research_node_one_record:
  "(length (discovered_companies s) \<le> current_research_index s \<longrightarrow>
      fst (research_node t run w s) = ''ALL_RESEARCH_COMPLETE''
      \<and> discovered_companies (snd (research_node t run w s)) = discovered_companies s
      \<and> current_research_index (snd (research_node t run w s)) = current_research_index s
      \<and> csv_file (snd (research_node t run w s)) = csv_file s)
   \<and> (current_research_index s < length (discovered_companies s) \<and> outcome run = LastMessage r \<longrightarrow>
      fst (research_node t run w s) = ''RESEARCH_PROGRESS''
      \<and> current_research_index (snd (research_node t run w s)) = current_research_index s + 1
      \<and> discovered_companies (snd (research_node t run w s)) ! current_research_index s
          = (discovered_companies s ! current_research_index s)\<lparr> detailed_report := r \<rparr>
      \<and> (\<forall>j. j < length (discovered_companies s) \<and> j \<noteq> current_research_index s \<longrightarrow>
            discovered_companies (snd (research_node t run w s)) ! j = discovered_companies s ! j)
      \<and> (w \<longrightarrow> csv_file (snd (research_node t run w s)) = csv_file s @
            [csv_row ((discovered_companies s ! current_research_index s)\<lparr> detailed_report := r \<rparr>)]))
   \<and> current_research_index s \<le> current_research_index (snd (research_node t run w s))
   \<and> current_research_index s \<le> current_research_index (snd (research_phase envs marker s))
   \<and> (current_research_index s \<le> length (discovered_companies s) \<longrightarrow>
        current_research_index (snd (research_node t run w s))
          \<le> length (discovered_companies (snd (research_node t run w s))))
   \<and> (current_research_index s \<le> length (discovered_companies s)
        \<and> fst (research_node t run w s) = ''ALL_RESEARCH_COMPLETE'' \<longrightarrow>
        current_research_index (snd (research_node t run w s))
          = length (discovered_companies (snd (research_node t run w s))))
   \<and> (current_research_index s = 0 \<longrightarrow>
        fst (research_phase envs ''DISCOVERY_COMPLETE'' s) \<noteq> ''ALL_RESEARCH_COMPLETE'')
   \<and> (current_research_index s = 0
        \<and> should_continue (fst (research_phase envs ''DISCOVERY_COMPLETE'' s))
              (snd (research_phase envs ''DISCOVERY_COMPLETE'' s)) = END
        \<and> \<not> py_in ''ERROR'' (fst (research_phase envs ''DISCOVERY_COMPLETE'' s)) \<longrightarrow>
        current_research_index (snd (research_phase envs ''DISCOVERY_COMPLETE'' s))
          = length (discovered_companies (snd (research_phase envs ''DISCOVERY_COMPLETE'' s))))"
proof (intro conjI)
  show "length (discovered_companies s) \<le> current_research_index s \<longrightarrow>
      fst (research_node t run w s) = ''ALL_RESEARCH_COMPLETE''
      \<and> discovered_companies (snd (research_node t run w s)) = discovered_companies s
      \<and> current_research_index (snd (research_node t run w s)) = current_research_index s
      \<and> csv_file (snd (research_node t run w s)) = csv_file s"
    by (simp add: research_node_complete)
next
  show "current_research_index s < length (discovered_companies s) \<and> outcome run = LastMessage r \<longrightarrow>
      fst (research_node t run w s) = ''RESEARCH_PROGRESS''
      \<and> current_research_index (snd (research_node t run w s)) = current_research_index s + 1
      \<and> discovered_companies (snd (research_node t run w s)) ! current_research_index s
          = (discovered_companies s ! current_research_index s)\<lparr> detailed_report := r \<rparr>
      \<and> (\<forall>j. j < length (discovered_companies s) \<and> j \<noteq> current_research_index s \<longrightarrow>
            discovered_companies (snd (research_node t run w s)) ! j = discovered_companies s ! j)
      \<and> (w \<longrightarrow> csv_file (snd (research_node t run w s)) = csv_file s @
            [csv_row ((discovered_companies s ! current_research_index s)\<lparr> detailed_report := r \<rparr>)])"
  proof
    assume a: "current_research_index s < length (discovered_companies s) \<and> outcome run = LastMessage r"
    then have lt: "current_research_index s < length (discovered_companies s)"
      and ret: "outcome run = LastMessage r"
      by simp_all
    from research_node_returns[OF lt ret, of t w] obtain ext where step:
      "research_node t run w s =
       (''RESEARCH_PROGRESS'',
        (enhanced_rate_limit t s)
          \<lparr> discovered_companies :=
               (discovered_companies s @ ext)
                 [current_research_index s :=
                    (discovered_companies s ! current_research_index s)\<lparr> detailed_report := r \<rparr>],
            csv_file :=
               (if w then csv_file s @
                    [csv_row ((discovered_companies s ! current_research_index s)\<lparr> detailed_report := r \<rparr>)]
                else csv_file s),
            current_research_index := current_research_index s + 1 \<rparr>)" .
    show "fst (research_node t run w s) = ''RESEARCH_PROGRESS''
      \<and> current_research_index (snd (research_node t run w s)) = current_research_index s + 1
      \<and> discovered_companies (snd (research_node t run w s)) ! current_research_index s
          = (discovered_companies s ! current_research_index s)\<lparr> detailed_report := r \<rparr>
      \<and> (\<forall>j. j < length (discovered_companies s) \<and> j \<noteq> current_research_index s \<longrightarrow>
            discovered_companies (snd (research_node t run w s)) ! j = discovered_companies s ! j)
      \<and> (w \<longrightarrow> csv_file (snd (research_node t run w s)) = csv_file s @
            [csv_row ((discovered_companies s ! current_research_index s)\<lparr> detailed_report := r \<rparr>)])"
      unfolding step using lt by (simp add: nth_append)
  qed
next
  show "current_research_index s \<le> current_research_index (snd (research_node t run w s))"
    by (rule research_node_cursor_mono)
next
  show "current_research_index s \<le> current_research_index (snd (research_phase envs marker s))"
    by (rule research_phase_cursor_mono)
next
  show "current_research_index s \<le> length (discovered_companies s) \<longrightarrow>
        current_research_index (snd (research_node t run w s))
          \<le> length (discovered_companies (snd (research_node t run w s)))"
    using research_node_cursor_bound by blast
next
  show "current_research_index s \<le> length (discovered_companies s)
        \<and> fst (research_node t run w s) = ''ALL_RESEARCH_COMPLETE'' \<longrightarrow>
        current_research_index (snd (research_node t run w s))
          = length (discovered_companies (snd (research_node t run w s)))"
    by (auto simp: research_node_complete_iff research_node_complete)
next
  show "current_research_index s = 0 \<longrightarrow>
        fst (research_phase envs ''DISCOVERY_COMPLETE'' s) \<noteq> ''ALL_RESEARCH_COMPLETE''"
    using research_phase_never_reports_complete[of s envs] by blast
next
  show "current_research_index s = 0
        \<and> should_continue (fst (research_phase envs ''DISCOVERY_COMPLETE'' s))
              (snd (research_phase envs ''DISCOVERY_COMPLETE'' s)) = END
        \<and> \<not> py_in ''ERROR'' (fst (research_phase envs ''DISCOVERY_COMPLETE'' s)) \<longrightarrow>
        current_research_index (snd (research_phase envs ''DISCOVERY_COMPLETE'' s))
          = length (discovered_companies (snd (research_phase envs ''DISCOVERY_COMPLETE'' s)))"
    using research_phase_ends_at_the_length[of s envs] by blast
qed

text \<open>
  Two invocations on a registry of two records: with the cursor on the first record the
  report is attached to it, its row is written, the second record is untouched and the
  cursor moves to 1; with the cursor at 2 the node reports completion. And a phase on the
  same registry from the cursor at 0: two invocations, two rows, and it ends on
  \<^verbatim>\<open>RESEARCH_PROGRESS\<close> with the cursor at 2, the third invocation never being made.
\<close>

theorem research_node_one_record_witness:
  "current_research_index (state_with (Count 2) [company_named ''Acme Corp'', company_named ''Beta LLC''] 0)
     < length (discovered_companies
         (state_with (Count 2) [company_named ''Acme Corp'', company_named ''Beta LLC''] 0))
   \<and> outcome (silent_agent ''Acme report'' 0) = LastMessage ''Acme report''
   \<and> research_node 1000 (silent_agent ''Acme report'' 0) True
        (state_with (Count 2) [company_named ''Acme Corp'', company_named ''Beta LLC''] 0)
      = (''RESEARCH_PROGRESS'',
         (state_with (Count 2)
            [(company_named ''Acme Corp'')\<lparr> detailed_report := ''Acme report'' \<rparr>,
             company_named ''Beta LLC''] 1)
           \<lparr> last_request_time := 1000, request_count := 1,
             csv_file := [[''Acme Corp'', [], [], [], [], [], ''Acme report'']] \<rparr>)
   \<and> discovered_companies (snd (research_node 1000 (silent_agent ''Acme report'' 0) True
        (state_with (Count 2) [company_named ''Acme Corp'', company_named ''Beta LLC''] 0))) ! 1
      = discovered_companies
          (state_with (Count 2) [company_named ''Acme Corp'', company_named ''Beta LLC''] 0) ! 1
   \<and> csv_file (snd (research_node 1000 (silent_agent ''Acme report'' 0) True
        (state_with (Count 2) [company_named ''Acme Corp'', company_named ''Beta LLC''] 0)))
      = csv_file (state_with (Count 2) [company_named ''Acme Corp'', company_named ''Beta LLC''] 0) @
          [csv_row ((discovered_companies
              (state_with (Count 2) [company_named ''Acme Corp'', company_named ''Beta LLC''] 0)
             ! current_research_index
                 (state_with (Count 2) [company_named ''Acme Corp'', company_named ''Beta LLC''] 0))
               \<lparr> detailed_report := ''Acme report'' \<rparr>)]
   \<and> length (discovered_companies
         (state_with (Count 2) [company_named ''Acme Corp'', company_named ''Beta LLC''] 2))
       \<le> current_research_index
           (state_with (Count 2) [company_named ''Acme Corp'', company_named ''Beta LLC''] 2)
   \<and> fst (research_node 1010 (silent_agent ''Acme report'' 0) True
        (state_with (Count 2) [company_named ''Acme Corp'', company_named ''Beta LLC''] 2))
      = ''ALL_RESEARCH_COMPLETE''
   \<and> current_research_index (snd (research_node 1010 (silent_agent ''Acme report'' 0) True
        (state_with (Count 2) [company_named ''Acme Corp'', company_named ''Beta LLC''] 2)))
      = length (discovered_companies (snd (research_node 1010 (silent_agent ''Acme report'' 0) True
        (state_with (Count 2) [company_named ''Acme Corp'', company_named ''Beta LLC''] 2))))
   \<and> fst (research_phase
        [(1000, silent_agent ''Acme report'' 1, True), (1010, silent_agent ''Beta report'' 2, True),
         (1020, silent_agent ''no report'' 3, True)]
        ''DISCOVERY_COMPLETE''
        (state_with (Count 2) [company_named ''Acme Corp'', company_named ''Beta LLC''] 0))
      = ''RESEARCH_PROGRESS''
   \<and> csv_file (snd (research_phase
        [(1000, silent_agent ''Acme report'' 1, True), (1010, silent_agent ''Beta report'' 2, True),
         (1020, silent_agent ''no report'' 3, True)]
        ''DISCOVERY_COMPLETE''
        (state_with (Count 2) [company_named ''Acme Corp'', company_named ''Beta LLC''] 0)))
      = [[''Acme Corp'', [], [], [], [], [], ''Acme report''],
         [''Beta LLC'', [], [], [], [], [], ''Beta report'']]
   \<and> current_research_index (snd (research_phase
        [(1000, silent_agent ''Acme report'' 1, True), (1010, silent_agent ''Beta report'' 2, True),
         (1020, silent_agent ''no report'' 3, True)]
        ''DISCOVERY_COMPLETE''
        (state_with (Count 2) [company_named ''Acme Corp'', company_named ''Beta LLC''] 0)))
      = length (discovered_companies (snd (research_phase
        [(1000, silent_agent ''Acme report'' 1, True), (1010, silent_agent ''Beta report'' 2, True),
         (1020, silent_agent ''no report'' 3, True)]
        ''DISCOVERY_COMPLETE''
        (state_with (Count 2) [company_named ''Acme Corp'', company_named ''Beta LLC''] 0))))"
proof -
  let ?envs = "[(1000, silent_agent ''Acme report'' 1, True), (1010, silent_agent ''Beta report'' 2, True),
         (1020::real, silent_agent ''no report'' 3, True)]"
  let ?s0 = "state_with (Count 2) [company_named ''Acme Corp'', company_named ''Beta LLC''] 0"
  let ?s2 = "state_with (Count 2) [company_named ''Acme Corp'', company_named ''Beta LLC''] 2"
  let ?run = "silent_agent ''Acme report'' 0"
  have lt: "current_research_index ?s0 < length (discovered_companies ?s0)"
    by (simp add: state_with_def)
  have other: "1 < length (discovered_companies ?s0) \<and> 1 \<noteq> current_research_index ?s0"
    by (simp add: state_with_def)
  have ret: "outcome ?run = LastMessage ''Acme report''"
    by (simp add: silent_agent_def)
  have v: "research_node 1000 ?run True ?s0
      = (''RESEARCH_PROGRESS'',
         (state_with (Count 2)
            [(company_named ''Acme Corp'')\<lparr> detailed_report := ''Acme report'' \<rparr>,
             company_named ''Beta LLC''] 1)
           \<lparr> last_request_time := 1000, request_count := 1,
             csv_file := [[''Acme Corp'', [], [], [], [], [], ''Acme report'']] \<rparr>)"
    by code_simp
  have ge: "length (discovered_companies ?s2) \<le> current_research_index ?s2"
    by (simp add: state_with_def)
  have inv: "current_research_index ?s2 \<le> length (discovered_companies ?s2)"
    by (simp add: state_with_def)
  have start: "current_research_index ?s0 = 0"
    by (simp add: state_with_def)
  have last_marker: "fst (research_phase ?envs ''DISCOVERY_COMPLETE'' ?s0) = ''RESEARCH_PROGRESS''"
    by code_simp
  have rows: "csv_file (snd (research_phase ?envs ''DISCOVERY_COMPLETE'' ?s0))
      = [[''Acme Corp'', [], [], [], [], [], ''Acme report''],
         [''Beta LLC'', [], [], [], [], [], ''Beta report'']]"
    by code_simp
  have stops: "should_continue (fst (research_phase ?envs ''DISCOVERY_COMPLETE'' ?s0))
      (snd (research_phase ?envs ''DISCOVERY_COMPLETE'' ?s0)) = END"
    by code_simp
  have fine: "\<not> py_in ''ERROR'' (fst (research_phase ?envs ''DISCOVERY_COMPLETE'' ?s0))"
    by code_simp
  show ?thesis
    using research_node_one_record[of ?s0 1000 ?run True "''Acme report''" ?envs "[]"]
      research_node_one_record[of ?s2 1010 ?run True "''Acme report''" "[]" "[]"]
      lt other ret v ge inv start last_marker rows stops fine
    by blast
qed

text \<open>
  Claim C4 as the specification words it fails where it says that nothing changes when
  the cursor is at the end: the call has gone through the rate limiter.
\<close>

theorem research_node_complete_counterexample:
  "current_research_index (state_with (Count 1) [company_named ''Acme Corp''] 1)
     = length (discovered_companies (state_with (Count 1) [company_named ''Acme Corp''] 1))
   \<and> fst (research_node 1000 (silent_agent ''Acme report'' 0) True
        (state_with (Count 1) [company_named ''Acme Corp''] 1)) = ''ALL_RESEARCH_COMPLETE''
   \<and> last_request_time (state_with (Count 1) [company_named ''Acme Corp''] 1) = 0
   \<and> last_request_time (snd (research_node 1000 (silent_agent ''Acme report'' 0) True
        (state_with (Count 1) [company_named ''Acme Corp''] 1))) = 1000
   \<and> request_count (state_with (Count 1) [company_named ''Acme Corp''] 1) = 0
   \<and> request_count (snd (research_node 1000 (silent_agent ''Acme report'' 0) True
        (state_with (Count 1) [company_named ''Acme Corp''] 1))) = 1
   \<and> snd (research_node 1000 (silent_agent ''Acme report'' 0) True
        (state_with (Count 1) [company_named ''Acme Corp''] 1))
      \<noteq> state_with (Count 1) [company_named ''Acme Corp''] 1"
  by code_simp

subsection \<open>A failing research agent\<close>

lemma call_tools_fields [simp]:
  "current_research_index (call_tools calls s) = current_research_index s"
  "csv_file (call_tools calls s) = csv_file s"
  "last_request_time (call_tools calls s) = last_request_time s"
  "request_count (call_tools calls s) = request_count s"
  "TARGET_COMPANIES (call_tools calls s) = TARGET_COMPANIES s"
  "discovery_complete (call_tools calls s) = discovery_complete s"
proof -
  obtain ext where "call_tools calls s = s\<lparr> discovered_companies := discovered_companies s @ ext \<rparr>"
    using call_tools_appends_only by blast
  then show "current_research_index (call_tools calls s) = current_research_index s"
    "csv_file (call_tools calls s) = csv_file s"
    "last_request_time (call_tools calls s) = last_request_time s"
    "request_count (call_tools calls s) = request_count s"
    "TARGET_COMPANIES (call_tools calls s) = TARGET_COMPANIES s"
    "discovery_complete (call_tools calls s) = discovery_complete s"
    by simp_all
qed

lemma call_tools_keeps_records:
  "k < length (discovered_companies s) \<Longrightarrow>
   discovered_companies (call_tools calls s) ! k = discovered_companies s ! k"
proof -
  assume k: "k < length (discovered_companies s)"
  obtain ext where "call_tools calls s = s\<lparr> discovered_companies := discovered_companies s @ ext \<rparr>"
    using call_tools_appends_only by blast
  then show ?thesis using k by (simp add: nth_append)
qed

lemma research_raise_step:
  assumes "current_research_index s < length (discovered_companies s)"
    and "outcome run = Raises e"
  shows "fst (research_node t run w s) = ''RESEARCH_ERROR: '' @ ''Research error: '' @ e"
    and "current_research_index (snd (research_node t run w s)) = current_research_index s"
    and "csv_file (snd (research_node t run w s)) = csv_file s"
    and "discovered_companies (snd (research_node t run w s)) ! current_research_index s
          = discovered_companies s ! current_research_index s"
    and "should_continue (fst (research_node t run w s)) (snd (research_node t run w s)) = END"
proof -
  have eq: "research_node t run w s
     = (''RESEARCH_ERROR: '' @ ''Research error: '' @ e,
        call_tools (tools_called run) (enhanced_rate_limit t s))"
    using research_node_raises[OF assms(1), of run e t w] assms(2) by blast
  show "fst (research_node t run w s) = ''RESEARCH_ERROR: '' @ ''Research error: '' @ e"
    unfolding eq by (rule fst_conv)
  show "current_research_index (snd (research_node t run w s)) = current_research_index s"
    unfolding eq by simp
  show "csv_file (snd (research_node t run w s)) = csv_file s"
    unfolding eq by simp
  show "discovered_companies (snd (research_node t run w s)) ! current_research_index s
          = discovered_companies s ! current_research_index s"
    unfolding eq using assms(1) by (simp add: call_tools_keeps_records)
  show "should_continue (fst (research_node t run w s)) (snd (research_node t run w s)) = END"
    unfolding eq fst_conv snd_conv by (rule error_marker_ends(1))
qed

lemma three_companies_second_fails:
  assumes reg: "discovered_companies s = [a, b, c]" and cur: "current_research_index s = 0"
    and r1: "outcome run1 = LastMessage r" and r2: "outcome run2 = Raises e"
  shows "fst (research_phase ((t1, run1, True) # (t2, run2, w2) # rest) ''DISCOVERY_COMPLETE'' s)
           = ''RESEARCH_ERROR: '' @ ''Research error: '' @ e"
    and "csv_file (snd (research_phase ((t1, run1, True) # (t2, run2, w2) # rest)
           ''DISCOVERY_COMPLETE'' s)) = csv_file s @ [csv_row (a\<lparr> detailed_report := r \<rparr>)]"
    and "current_research_index (snd (research_phase ((t1, run1, True) # (t2, run2, w2) # rest)
           ''DISCOVERY_COMPLETE'' s)) = 1"
proof -
  have lt: "current_research_index s < length (discovered_companies s)"
    by (simp add: reg cur)
  from research_node_returns[OF lt r1, of t1 True] obtain ext where step1:
      "research_node t1 run1 True s =
       (''RESEARCH_PROGRESS'',
        (enhanced_rate_limit t1 s)
          \<lparr> discovered_companies :=
               (discovered_companies s @ ext)
                 [current_research_index s :=
                    (discovered_companies s ! current_research_index s)\<lparr> detailed_report := r \<rparr>],
            csv_file :=
               (if True then csv_file s @
                    [csv_row ((discovered_companies s ! current_research_index s)\<lparr> detailed_report := r \<rparr>)]
                else csv_file s),
            current_research_index := current_research_index s + 1 \<rparr>)" .
  define s1 where "s1 = snd (research_node t1 run1 True s)"
  have m1: "fst (research_node t1 run1 True s) = ''RESEARCH_PROGRESS''"
    by (simp add: step1)
  have c1: "current_research_index s1 = 1"
    by (simp add: s1_def step1 cur)
  have l1: "length (discovered_companies s1) = 3 + length ext"
    by (simp add: s1_def step1 reg cur)
  have f1: "csv_file s1 = csv_file s @ [csv_row (a\<lparr> detailed_report := r \<rparr>)]"
    by (simp add: s1_def step1 reg cur)
  have lt1: "current_research_index s1 < length (discovered_companies s1)"
    by (simp add: c1 l1)
  have go0: "should_continue ''DISCOVERY_COMPLETE'' s = Research"
    by (simp add: plain_markers reg)
  have go1: "should_continue ''RESEARCH_PROGRESS'' s1 = Research"
    using lt1 by (simp add: plain_markers)
  have unfold: "research_phase ((t1, run1, True) # (t2, run2, w2) # rest) ''DISCOVERY_COMPLETE'' s
      = research_phase rest (fst (research_node t2 run2 w2 s1)) (snd (research_node t2 run2 w2 s1))"
    using go0 go1 by (simp add: m1 s1_def[symmetric])
  have stop: "research_phase rest (fst (research_node t2 run2 w2 s1)) (snd (research_node t2 run2 w2 s1))
      = (fst (research_node t2 run2 w2 s1), snd (research_node t2 run2 w2 s1))"
    using research_raise_step(5)[OF lt1 r2] by (rule research_phase_END)
  have final: "research_phase ((t1, run1, True) # (t2, run2, w2) # rest) ''DISCOVERY_COMPLETE'' s
      = (fst (research_node t2 run2 w2 s1), snd (research_node t2 run2 w2 s1))"
    by (simp only: unfold stop)
  show "fst (research_phase ((t1, run1, True) # (t2, run2, w2) # rest) ''DISCOVERY_COMPLETE'' s)
           = ''RESEARCH_ERROR: '' @ ''Research error: '' @ e"
    unfolding final fst_conv by (rule research_raise_step(1)[OF lt1 r2])
  show "csv_file (snd (research_phase ((t1, run1, True) # (t2, run2, w2) # rest)
           ''DISCOVERY_COMPLETE'' s)) = csv_file s @ [csv_row (a\<lparr> detailed_report := r \<rparr>)]"
    unfolding final snd_conv by (rule trans[OF research_raise_step(3)[OF lt1 r2] f1])
  show "current_research_index (snd (research_phase ((t1, run1, True) # (t2, run2, w2) # rest)
           ''DISCOVERY_COMPLETE'' s)) = 1"
    unfolding final snd_conv by (rule trans[OF research_raise_step(2)[OF lt1 r2] c1])
qed

text \<open>
  Claim C6. When the agent raises while the cursor is on a record, \<^verbatim>\<open>research_node\<close>
  emits the \<^verbatim>\<open>RESEARCH_ERROR\<close> marker with the text of the exception, the cursor and the
  file are as before, the record has not been touched, and the workflow ends on that
  marker. With three records in the registry, a research phase whose first invocation
  returns a report and whose second raises ends with the error marker, one row in the
  file (the first record with its report) and the cursor at 1.
\<close>

theorem research_agent_failure:
  "(current_research_index s < length (discovered_companies s) \<and> outcome run = Raises e \<longrightarrow>
      fst (research_node t run w s) = ''RESEARCH_ERROR: '' @ ''Research error: '' @ e
      \<and> current_research_index (snd (research_node t run w s)) = current_research_index s
      \<and> csv_file (snd (research_node t run w s)) = csv_file s
      \<and> discovered_companies (snd (research_node t run w s)) ! current_research_index s
          = discovered_companies s ! current_research_index s
      \<and> should_continue (fst (research_node t run w s)) (snd (research_node t run w s)) = END)
   \<and> (discovered_companies s0 = [a, b, c] \<and> current_research_index s0 = 0
        \<and> outcome run1 = LastMessage r \<and> outcome run2 = Raises e2 \<longrightarrow>
      fst (research_phase ((t1, run1, True) # (t2, run2, w2) # rest) ''DISCOVERY_COMPLETE'' s0)
          = ''RESEARCH_ERROR: '' @ ''Research error: '' @ e2
      \<and> csv_file (snd (research_phase ((t1, run1, True) # (t2, run2, w2) # rest)
           ''DISCOVERY_COMPLETE'' s0)) = csv_file s0 @ [csv_row (a\<lparr> detailed_report := r \<rparr>)]
      \<and> current_research_index (snd (research_phase ((t1, run1, True) # (t2, run2, w2) # rest)
           ''DISCOVERY_COMPLETE'' s0)) = 1)"
proof (intro conjI impI)
  assume a: "current_research_index s < length (discovered_companies s) \<and> outcome run = Raises e"
  then have lt: "current_research_index s < length (discovered_companies s)"
    and rs: "outcome run = Raises e"
    by simp_all
  show "fst (research_node t run w s) = ''RESEARCH_ERROR: '' @ ''Research error: '' @ e"
    by (rule research_raise_step(1)[OF lt rs])
  show "current_research_index (snd (research_node t run w s)) = current_research_index s"
    by (rule research_raise_step(2)[OF lt rs])
  show "csv_file (snd (research_node t run w s)) = csv_file s"
    by (rule research_raise_step(3)[OF lt rs])
  show "discovered_companies (snd (research_node t run w s)) ! current_research_index s
          = discovered_companies s ! current_research_index s"
    by (rule research_raise_step(4)[OF lt rs])
  show "should_continue (fst (research_node t run w s)) (snd (research_node t run w s)) = END"
    by (rule research_raise_step(5)[OF lt rs])
next
  assume b: "discovered_companies s0 = [a, b, c] \<and> current_research_index s0 = 0
        \<and> outcome run1 = LastMessage r \<and> outcome run2 = Raises e2"
  then have reg: "discovered_companies s0 = [a, b, c]" and cur: "current_research_index s0 = 0"
    and r1: "outcome run1 = LastMessage r" and r2: "outcome run2 = Raises e2"
    by simp_all
  show "fst (research_phase ((t1, run1, True) # (t2, run2, w2) # rest) ''DISCOVERY_COMPLETE'' s0)
          = ''RESEARCH_ERROR: '' @ ''Research error: '' @ e2"
    by (rule three_companies_second_fails(1)[OF reg cur r1 r2])
  show "csv_file (snd (research_phase ((t1, run1, True) # (t2, run2, w2) # rest)
           ''DISCOVERY_COMPLETE'' s0)) = csv_file s0 @ [csv_row (a\<lparr> detailed_report := r \<rparr>)]"
    by (rule three_companies_second_fails(2)[OF reg cur r1 r2])
  show "current_research_index (snd (research_phase ((t1, run1, True) # (t2, run2, w2) # rest)
           ''DISCOVERY_COMPLETE'' s0)) = 1"
    by (rule three_companies_second_fails(3)[OF reg cur r1 r2])
qed


text \<open>
  The scenario of the specification: three records, the agent returns a report for the
  first and raises \<^verbatim>\<open>boom\<close> on the second.
\<close>

theorem research_agent_failure_witness:
  "current_research_index
       (state_with (Count 3) [company_named ''A'', company_named ''B'', company_named ''C''] 1)
     < length (discovered_companies
       (state_with (Count 3) [company_named ''A'', company_named ''B'', company_named ''C''] 1))
   \<and> outcome (failing_agent ''boom'' 2) = Raises ''boom''
   \<and> fst (research_node 20 (failing_agent ''boom'' 2) True
        (state_with (Count 3) [company_named ''A'', company_named ''B'', company_named ''C''] 1))
      = ''RESEARCH_ERROR: Research error: boom''
   \<and> current_research_index (snd (research_node 20 (failing_agent ''boom'' 2) True
        (state_with (Count 3) [company_named ''A'', company_named ''B'', company_named ''C''] 1))) = 1
   \<and> csv_file (snd (research_node 20 (failing_agent ''boom'' 2) True
        (state_with (Count 3) [company_named ''A'', company_named ''B'', company_named ''C''] 1))) = []
   \<and> discovered_companies
        (state_with (Count 3) [company_named ''A'', company_named ''B'', company_named ''C''] 0)
      = [company_named ''A'', company_named ''B'', company_named ''C'']
   \<and> current_research_index
        (state_with (Count 3) [company_named ''A'', company_named ''B'', company_named ''C''] 0) = 0
   \<and> outcome (silent_agent ''report on A'' 1) = LastMessage ''report on A''
   \<and> fst (research_phase
        [(10, silent_agent ''report on A'' 1, True), (20, failing_agent ''boom'' 2, True),
         (30, silent_agent ''report on C'' 3, True)]
        ''DISCOVERY_COMPLETE''
        (state_with (Count 3) [company_named ''A'', company_named ''B'', company_named ''C''] 0))
      = ''RESEARCH_ERROR: Research error: boom''
   \<and> csv_file (snd (research_phase
        [(10, silent_agent ''report on A'' 1, True), (20, failing_agent ''boom'' 2, True),
         (30, silent_agent ''report on C'' 3, True)]
        ''DISCOVERY_COMPLETE''
        (state_with (Count 3) [company_named ''A'', company_named ''B'', company_named ''C''] 0)))
      = [[''A'', [], [], [], [], [], ''report on A'']]
   \<and> current_research_index (snd (research_phase
        [(10, silent_agent ''report on A'' 1, True), (20, failing_agent ''boom'' 2, True),
         (30, silent_agent ''report on C'' 3, True)]
        ''DISCOVERY_COMPLETE''
        (state_with (Count 3) [company_named ''A'', company_named ''B'', company_named ''C''] 0))) = 1"
proof -
  let ?s0 = "state_with (Count 3) [company_named ''A'', company_named ''B'', company_named ''C''] 0"
  let ?s1 = "state_with (Count 3) [company_named ''A'', company_named ''B'', company_named ''C''] 1"
  have lt: "current_research_index ?s1 < length (discovered_companies ?s1)"
    by (simp add: state_with_def)
  have rs: "outcome (failing_agent ''boom'' 2) = Raises ''boom''"
    by (simp add: failing_agent_def)
  have reg: "discovered_companies ?s0 = [company_named ''A'', company_named ''B'', company_named ''C'']"
    by (simp add: state_with_def)
  have cur: "current_research_index ?s0 = 0"
    by (simp add: state_with_def)
  have ret: "outcome (silent_agent ''report on A'' 1) = LastMessage ''report on A''"
    by (simp add: silent_agent_def)
  have marker: "''RESEARCH_ERROR: '' @ ''Research error: '' @ ''boom'' = ''RESEARCH_ERROR: Research error: boom''"
    by simp
  have f0: "csv_file ?s1 = []" "csv_file ?s0 = []"
    by (simp_all add: state_with_def initial_state_def)
  have c1: "current_research_index ?s1 = 1"
    by (simp add: state_with_def)
  have row: "csv_row ((company_named ''A'')\<lparr> detailed_report := ''report on A'' \<rparr>)
      = [''A'', [], [], [], [], [], ''report on A'']"
    by (simp add: csv_row_def company_named_def)
  note inst = research_agent_failure[of ?s1 "failing_agent ''boom'' 2" "''boom''" 20 True
      ?s0 "company_named ''A''" "company_named ''B''" "company_named ''C''"
      "silent_agent ''report on A'' 1" "''report on A''" "failing_agent ''boom'' 2" "''boom''"
      10 20 True "[(30, silent_agent ''report on C'' 3, True)]"]
  show ?thesis
    using inst lt rs reg cur ret
    unfolding marker f0 c1 row append_Nil
    by blast
qed

subsection \<open>A file that cannot be written\<close>

text \<open>
  Claim C9. When the row cannot be written, \<^verbatim>\<open>add_company_to_csv\<close> returns \<^verbatim>\<open>False\<close> and
  the file is as before; \<^verbatim>\<open>research_node\<close>, with the cursor on a record and an agent
  that returns a text, still keeps that text as the record's report, moves the cursor on
  by one and emits \<^verbatim>\<open>RESEARCH_PROGRESS\<close>, which is not an error marker.
\<close>

theorem csv_failure_does_not_stop_research:
  "add_company_to_csv False company_data s0 = (False, s0)
   \<and> (current_research_index s < length (discovered_companies s) \<and> outcome run = LastMessage r \<longrightarrow>
        fst (research_node t run False s) = ''RESEARCH_PROGRESS''
        \<and> \<not> py_in ''ERROR'' (fst (research_node t run False s))
        \<and> current_research_index (snd (research_node t run False s)) = current_research_index s + 1
        \<and> discovered_companies (snd (research_node t run False s)) ! current_research_index s
            = (discovered_companies s ! current_research_index s)\<lparr> detailed_report := r \<rparr>
        \<and> csv_file (snd (research_node t run False s)) = csv_file s)"
proof (intro conjI impI)
  show "add_company_to_csv False company_data s0 = (False, s0)"
    by (simp add: add_company_to_csv_def)
next
  assume a: "current_research_index s < length (discovered_companies s) \<and> outcome run = LastMessage r"
  then have lt: "current_research_index s < length (discovered_companies s)"
    and ret: "outcome run = LastMessage r"
    by simp_all
  from research_node_returns[OF lt ret, of t False] obtain ext where step:
      "research_node t run False s =
       (''RESEARCH_PROGRESS'',
        (enhanced_rate_limit t s)
          \<lparr> discovered_companies :=
               (discovered_companies s @ ext)
                 [current_research_index s :=
                    (discovered_companies s ! current_research_index s)\<lparr> detailed_report := r \<rparr>],
            csv_file :=
               (if False then csv_file s @
                    [csv_row ((discovered_companies s ! current_research_index s)\<lparr> detailed_report := r \<rparr>)]
                else csv_file s),
            current_research_index := current_research_index s + 1 \<rparr>)" .
  show "fst (research_node t run False s) = ''RESEARCH_PROGRESS''"
    unfolding step by simp
  show "\<not> py_in ''ERROR'' (fst (research_node t run False s))"
    unfolding step by simp
  show "current_research_index (snd (research_node t run False s)) = current_research_index s + 1"
    unfolding step by simp
  show "discovered_companies (snd (research_node t run False s)) ! current_research_index s
            = (discovered_companies s ! current_research_index s)\<lparr> detailed_report := r \<rparr>"
    unfolding step using lt by simp
  show "csv_file (snd (research_node t run False s)) = csv_file s"
    unfolding step by simp
qed

theorem csv_failure_does_not_stop_research_witness:
  "current_research_index (state_with (Count 1) [company_named ''Acme Corp''] 0)
     < length (discovered_companies (state_with (Count 1) [company_named ''Acme Corp''] 0))
   \<and> outcome (silent_agent ''Acme report'' 1) = LastMessage ''Acme report''
   \<and> research_node 1000 (silent_agent ''Acme report'' 1) False
        (state_with (Count 1) [company_named ''Acme Corp''] 0)
      = (''RESEARCH_PROGRESS'',
         (state_with (Count 1) [(company_named ''Acme Corp'')\<lparr> detailed_report := ''Acme report'' \<rparr>] 1)
           \<lparr> last_request_time := 1000, request_count := 1 \<rparr>)
   \<and> csv_file (snd (research_node 1000 (silent_agent ''Acme report'' 1) False
        (state_with (Count 1) [company_named ''Acme Corp''] 0)))
      = csv_file (state_with (Count 1) [company_named ''Acme Corp''] 0)
   \<and> current_research_index (snd (research_node 1000 (silent_agent ''Acme report'' 1) False
        (state_with (Count 1) [company_named ''Acme Corp''] 0)))
      = current_research_index (state_with (Count 1) [company_named ''Acme Corp''] 0) + 1"
proof -
  let ?s = "state_with (Count 1) [company_named ''Acme Corp''] 0"
  have lt: "current_research_index ?s < length (discovered_companies ?s)"
    by (simp add: state_with_def)
  have ret: "outcome (silent_agent ''Acme report'' 1) = LastMessage ''Acme report''"
    by (simp add: silent_agent_def)
  have v: "research_node 1000 (silent_agent ''Acme report'' 1) False ?s
      = (''RESEARCH_PROGRESS'',
         (state_with (Count 1) [(company_named ''Acme Corp'')\<lparr> detailed_report := ''Acme report'' \<rparr>] 1)
           \<lparr> last_request_time := 1000, request_count := 1 \<rparr>)"
    by code_simp
  show ?thesis
    using csv_failure_does_not_stop_research[of "company_named ''Acme Corp''" ?s ?s
        "silent_agent ''Acme report'' 1" "''Acme report''" 1000] lt ret v
    by blast
qed

section \<open>The discovery node: properties\<close>

subsection \<open>Nothing to discover\<close>

text \<open>
  Claim C10. When the registry already holds as many records as the target asks for,
  \<^verbatim>\<open>discovery_node\<close> emits \<^verbatim>\<open>DISCOVERY_COMPLETE\<close> at once: the agent is not invoked, and
  the registry and the two globals of the rate limiter are as before (a call of the
  limiter always moves \<^verbatim>\<open>last_request_time\<close>, so there has been none). Only the flag
  \<^verbatim>\<open>discovery_complete\<close> is set; the result depends neither on the clock nor on the
  agent.
\<close>

theorem discovery_node_already_complete:
  "len_ge_target (discovered_companies s) (TARGET_COMPANIES s) \<longrightarrow>
     discovery_node t agent s = (''DISCOVERY_COMPLETE'', 0, s\<lparr> discovery_complete := True \<rparr>)
     \<and> fst (snd (discovery_node t agent s)) = 0
     \<and> discovered_companies (snd (snd (discovery_node t agent s))) = discovered_companies s
     \<and> last_request_time (snd (snd (discovery_node t agent s))) = last_request_time s
     \<and> request_count (snd (snd (discovery_node t agent s))) = request_count s"
proof
  assume "len_ge_target (discovered_companies s) (TARGET_COMPANIES s)"
  then have eq: "discovery_node t agent s = (''DISCOVERY_COMPLETE'', 0, s\<lparr> discovery_complete := True \<rparr>)"
    by (simp add: discovery_node_def)
  show "discovery_node t agent s = (''DISCOVERY_COMPLETE'', 0, s\<lparr> discovery_complete := True \<rparr>)
     \<and> fst (snd (discovery_node t agent s)) = 0
     \<and> discovered_companies (snd (snd (discovery_node t agent s))) = discovered_companies s
     \<and> last_request_time (snd (snd (discovery_node t agent s))) = last_request_time s
     \<and> request_count (snd (snd (discovery_node t agent s))) = request_count s"
    unfolding eq by simp
qed

theorem discovery_node_already_complete_witness:
  "len_ge_target
      (discovered_companies (state_with (Count 1) [company_named ''Acme Corp''] 0))
      (TARGET_COMPANIES (state_with (Count 1) [company_named ''Acme Corp''] 0))
   \<and> discovery_node 1000 (failing_agent ''boom'')
        (state_with (Count 1) [company_named ''Acme Corp''] 0)
      = (''DISCOVERY_COMPLETE'', 0,
         (state_with (Count 1) [company_named ''Acme Corp''] 0)\<lparr> discovery_complete := True \<rparr>)"
proof -
  have "len_ge_target
      (discovered_companies (state_with (Count 1) [company_named ''Acme Corp''] 0))
      (TARGET_COMPANIES (state_with (Count 1) [company_named ''Acme Corp''] 0))"
    by code_simp
  then show ?thesis
    using discovery_node_already_complete[of "state_with (Count 1) [company_named ''Acme Corp''] 0"
        1000 "failing_agent ''boom''"]
    by blast
qed

subsection \<open>The attempt budget\<close>

declare discovery_loop.simps [simp del]

lemma discovery_loop_attempts:
  "fst (snd (discovery_loop agent attempts s)) \<le> max attempts max_attempts"
proof (induction agent attempts s rule: discovery_loop.induct)
  case (1 agent attempts s)
  show ?case
  proof (cases "\<not> len_ge_target (discovered_companies s) (TARGET_COMPANIES s) \<and> attempts < max_attempts")
    case False
    then show ?thesis
      by (subst discovery_loop.simps) auto
  next
    case True
    show ?thesis
    proof (cases "outcome (agent (attempts + 1))")
      case (Raises e)
      then show ?thesis using True
        by (subst discovery_loop.simps) auto
    next
      case (NoMessages e)
      then show ?thesis using True "1.IH"(1)[OF True NoMessages]
        by (subst discovery_loop.simps) auto
    next
      case (LastMessage m)
      then show ?thesis using True "1.IH"(2)[OF True LastMessage] "1.IH"(3)[OF True LastMessage]
        by (subst discovery_loop.simps) auto
    qed
  qed
qed

lemma discovery_loop_no_raise:
  assumes "\<forall>i e. attempts < i \<and> i \<le> max_attempts \<longrightarrow> outcome (agent i) \<noteq> Raises e"
  shows "fst (discovery_loop agent attempts s) = None"
  using assms
proof (induction agent attempts s rule: discovery_loop.induct)
  case (1 agent attempts s)
  show ?case
  proof (cases "\<not> len_ge_target (discovered_companies s) (TARGET_COMPANIES s) \<and> attempts < max_attempts")
    case False
    then show ?thesis
      by (subst discovery_loop.simps) auto
  next
    case True
    have later: "\<forall>i e. attempts + 1 < i \<and> i \<le> max_attempts \<longrightarrow> outcome (agent i) \<noteq> Raises e"
      using "1.prems" by auto
    show ?thesis
    proof (cases "outcome (agent (attempts + 1))")
      case (Raises e)
      then have False using "1.prems" True by auto
      then show ?thesis ..
    next
      case (NoMessages e)
      then show ?thesis using True "1.IH"(1)[OF True NoMessages _ later]
        by (subst discovery_loop.simps) auto
    next
      case (LastMessage m)
      then show ?thesis
        using True "1.IH"(2)[OF True LastMessage _ _ later] "1.IH"(3)[OF True LastMessage _ _ _ later]
        by (subst discovery_loop.simps) auto
    qed
  qed
qed

lemma discovery_loop_raise:
  assumes "fst (discovery_loop agent attempts s) = Some e"
  shows "attempts < fst (snd (discovery_loop agent attempts s))
       \<and> outcome (agent (fst (snd (discovery_loop agent attempts s)))) = Raises e"
  using assms
proof (induction agent attempts s rule: discovery_loop.induct)
  case (1 agent attempts s)
  show ?case
  proof (cases "\<not> len_ge_target (discovered_companies s) (TARGET_COMPANIES s) \<and> attempts < max_attempts")
    case False
    then have "fst (discovery_loop agent attempts s) = None"
      by (subst discovery_loop.simps) auto
    then show ?thesis using "1.prems" by simp
  next
    case True
    show ?thesis
    proof (cases "outcome (agent (attempts + 1))")
      case (Raises e')
      then have "discovery_loop agent attempts s
          = (Some e', attempts + 1, call_tools (tools_called (agent (attempts + 1))) s)"
        using True by (subst discovery_loop.simps) auto
      then show ?thesis using "1.prems" Raises by simp
    next
      case (NoMessages e')
      show ?thesis
      proof (cases "max_attempts \<le> attempts + 1")
        case True
        then have "fst (discovery_loop agent attempts s) = None"
          using \<open>\<not> len_ge_target (discovered_companies s) (TARGET_COMPANIES s) \<and> attempts < max_attempts\<close>
            NoMessages
          by (subst discovery_loop.simps) auto
        then show ?thesis using "1.prems" by simp
      next
        case False
        have eq: "discovery_loop agent attempts s = discovery_loop agent (attempts + 1)
                    (call_tools (tools_called (agent (attempts + 1))) s)"
          using True NoMessages False by (subst discovery_loop.simps) auto
        from "1.IH"(1)[OF True NoMessages False] "1.prems" show ?thesis
          unfolding eq by auto
      qed
    next
      case (LastMessage m)
      show ?thesis
      proof (cases "py_in ''Target reached'' m \<or> py_in ''SUCCESS'' m")
        case stop: True
        then have "fst (discovery_loop agent attempts s) = None"
          using True LastMessage by (subst discovery_loop.simps) auto
        then show ?thesis using "1.prems" by simp
      next
        case go: False
        show ?thesis
        proof (cases "py_in ''already exists'' m")
          case dup: True
          have eq: "discovery_loop agent attempts s = discovery_loop agent (attempts + 1)
                    (call_tools (tools_called (agent (attempts + 1))) s)"
            using True LastMessage go dup by (subst discovery_loop.simps) auto
          from "1.IH"(2)[OF True LastMessage go dup] "1.prems" show ?thesis
            unfolding eq by auto
        next
          case nodup: False
          show ?thesis
          proof (cases "max_attempts \<le> attempts + 1")
            case last: True
            then have "fst (discovery_loop agent attempts s) = None"
              using True LastMessage go nodup by (subst discovery_loop.simps) auto
            then show ?thesis using "1.prems" by simp
          next
            case more: False
            have eq: "discovery_loop agent attempts s = discovery_loop agent (attempts + 1)
                    (call_tools (tools_called (agent (attempts + 1))) s)"
              using True LastMessage go nodup more by (subst discovery_loop.simps) auto
            from "1.IH"(3)[OF True LastMessage go nodup more] "1.prems" show ?thesis
              unfolding eq by auto
          qed
        qed
      qed
    qed
  qed
qed

text \<open>One turn of the loop, by the way it ends.\<close>

lemma discovery_loop_cases:
  obtains (stop) "\<not> (\<not> len_ge_target (discovered_companies s) (TARGET_COMPANIES s) \<and> attempts < max_attempts)"
      "discovery_loop agent attempts s = (None, attempts, s)"
  | (raise) e where "attempts < max_attempts"
      "\<not> len_ge_target (discovered_companies s) (TARGET_COMPANIES s)"
      "outcome (agent (attempts + 1)) = Raises e"
      "discovery_loop agent attempts s
         = (Some e, attempts + 1, call_tools (tools_called (agent (attempts + 1))) s)"
  | (last) "attempts < max_attempts" "\<forall>e. outcome (agent (attempts + 1)) \<noteq> Raises e"
      "discovery_loop agent attempts s
         = (None, attempts + 1, call_tools (tools_called (agent (attempts + 1))) s)"
  | (again) "attempts < max_attempts" "\<forall>e. outcome (agent (attempts + 1)) \<noteq> Raises e"
      "discovery_loop agent attempts s
         = discovery_loop agent (attempts + 1) (call_tools (tools_called (agent (attempts + 1))) s)"
proof -
  note unfold = discovery_loop.simps[of agent attempts s]
  show ?thesis
  proof (cases "\<not> len_ge_target (discovered_companies s) (TARGET_COMPANIES s) \<and> attempts < max_attempts")
    case False
    then have "discovery_loop agent attempts s = (None, attempts, s)"
      unfolding unfold by auto
    then show ?thesis using False stop by blast
  next
    case True
    show ?thesis
    proof (cases "outcome (agent (attempts + 1))")
      case (Raises e)
      then have "discovery_loop agent attempts s
           = (Some e, attempts + 1, call_tools (tools_called (agent (attempts + 1))) s)"
        unfolding unfold using True by simp
      then show ?thesis using True Raises raise by blast
    next
      case (NoMessages e)
      then have "discovery_loop agent attempts s
           = (None, attempts + 1, call_tools (tools_called (agent (attempts + 1))) s)
         \<or> discovery_loop agent attempts s
           = discovery_loop agent (attempts + 1) (call_tools (tools_called (agent (attempts + 1))) s)"
        unfolding unfold using True by simp
      moreover have "\<forall>e. outcome (agent (attempts + 1)) \<noteq> Raises e"
        using NoMessages by simp
      ultimately show ?thesis using True last again by blast
    next
      case (LastMessage m)
      then have "discovery_loop agent attempts s
           = (None, attempts + 1, call_tools (tools_called (agent (attempts + 1))) s)
         \<or> discovery_loop agent attempts s
           = discovery_loop agent (attempts + 1) (call_tools (tools_called (agent (attempts + 1))) s)"
        unfolding unfold using True by simp
      moreover have "\<forall>e. outcome (agent (attempts + 1)) \<noteq> Raises e"
        using LastMessage by simp
      ultimately show ?thesis using True last again by blast
    qed
  qed
qed

text \<open>An invocation that raises is the last one, and its text is what leaves the loop.\<close>

lemma discovery_loop_raising_invocation:
  assumes "attempts < i" and "i \<le> fst (snd (discovery_loop agent attempts s))"
    and "outcome (agent i) = Raises e"
  shows "fst (discovery_loop agent attempts s) = Some e
       \<and> fst (snd (discovery_loop agent attempts s)) = i"
  using assms
proof (induction "max_attempts - attempts" arbitrary: attempts s)
  case 0
  then have "\<not> attempts < max_attempts"
    by simp
  then have "discovery_loop agent attempts s = (None, attempts, s)"
    by (cases rule: discovery_loop_cases[where s=s and attempts=attempts and agent=agent]) simp_all
  then show ?case using "0.prems" by simp
next
  case (Suc n)
  show ?case
  proof (cases rule: discovery_loop_cases[where s=s and attempts=attempts and agent=agent])
    case stop
    then show ?thesis using Suc.prems by simp
  next
    case (raise e')
    then have "i = attempts + 1"
      using Suc.prems by simp
    then show ?thesis using raise Suc.prems by simp
  next
    case last
    then have "i = attempts + 1"
      using Suc.prems by simp
    then show ?thesis using last Suc.prems by simp
  next
    case again
    have "i \<noteq> attempts + 1"
      using again(2) Suc.prems(3) by auto
    then have lt: "attempts + 1 < i"
      using Suc.prems(1) by simp
    have le: "i \<le> fst (snd (discovery_loop agent (attempts + 1)
          (call_tools (tools_called (agent (attempts + 1))) s)))"
      using Suc.prems(2) by (simp add: again(3))
    have "n = max_attempts - (attempts + 1)"
      using Suc.hyps(2) by simp
    from Suc.hyps(1)[OF this lt le Suc.prems(3)] show ?thesis
      by (simp add: again(3))
  qed
qed

text \<open>The loop touches the registry only.\<close>

lemma discovery_loop_fields:
  "current_research_index (snd (snd (discovery_loop agent attempts s))) = current_research_index s
   \<and> discovery_complete (snd (snd (discovery_loop agent attempts s))) = discovery_complete s
   \<and> csv_file (snd (snd (discovery_loop agent attempts s))) = csv_file s"
proof (induction "max_attempts - attempts" arbitrary: attempts s)
  case 0
  then have "\<not> attempts < max_attempts"
    by simp
  then have "discovery_loop agent attempts s = (None, attempts, s)"
    by (cases rule: discovery_loop_cases[where s=s and attempts=attempts and agent=agent]) simp_all
  then show ?case by simp
next
  case (Suc n)
  show ?case
  proof (cases rule: discovery_loop_cases[where s=s and attempts=attempts and agent=agent])
    case stop
    then show ?thesis by simp
  next
    case (raise e')
    then show ?thesis by simp
  next
    case last
    then show ?thesis by simp
  next
    case again
    have "n = max_attempts - (attempts + 1)"
      using Suc.hyps(2) by simp
    from Suc.hyps(1)[OF this, of "call_tools (tools_called (agent (attempts + 1))) s"]
    show ?thesis
      by (simp add: again(3))
  qed
qed

lemma discovery_node_cursor:
  "current_research_index (snd (snd (discovery_node t agent s))) = current_research_index s"
proof (cases "len_ge_target (discovered_companies s) (TARGET_COMPANIES s)")
  case True
  then show ?thesis by (simp add: discovery_node_def)
next
  case False
  obtain r a s' where loop: "discovery_loop agent 0 (enhanced_rate_limit t s) = (r, a, s')"
    by (cases "discovery_loop agent 0 (enhanced_rate_limit t s)")
  have "current_research_index s' = current_research_index s"
    using discovery_loop_fields[of agent 0 "enhanced_rate_limit t s"] by (simp add: loop)
  then show ?thesis using False
    by (cases r) (simp_all add: discovery_node_def loop)
qed

lemma discovery_node_markers:
  "fst (discovery_node t agent s) = ''DISCOVERY_COMPLETE''
   \<or> (\<exists>e. fst (discovery_node t agent s) = ''DISCOVERY_ERROR: '' @ ''Discovery error: '' @ e)"
proof (cases "len_ge_target (discovered_companies s) (TARGET_COMPANIES s)")
  case True
  then show ?thesis by (simp add: discovery_node_def)
next
  case False
  obtain r a s' where loop: "discovery_loop agent 0 (enhanced_rate_limit t s) = (r, a, s')"
    by (cases "discovery_loop agent 0 (enhanced_rate_limit t s)")
  show ?thesis
  proof (cases r)
    case None
    then show ?thesis using False by (simp add: discovery_node_def loop)
  next
    case (Some e)
    then have "fst (discovery_node t agent s) = ''DISCOVERY_ERROR: '' @ ''Discovery error: '' @ e"
      using False by (simp add: discovery_node_def loop)
    then show ?thesis by blast
  qed
qed

lemma discovery_node_raising_invocation:
  assumes "0 < i" and "i \<le> fst (snd (discovery_node t agent s))" and "outcome (agent i) = Raises e"
  shows "fst (discovery_node t agent s) = ''DISCOVERY_ERROR: '' @ ''Discovery error: '' @ e"
    and "fst (snd (discovery_node t agent s)) = i"
    and "discovery_complete (snd (snd (discovery_node t agent s))) = discovery_complete s"
proof -
  have open_target: "\<not> len_ge_target (discovered_companies s) (TARGET_COMPANIES s)"
  proof
    assume "len_ge_target (discovered_companies s) (TARGET_COMPANIES s)"
    then have "fst (snd (discovery_node t agent s)) = 0"
      by (simp add: discovery_node_def)
    then show False using assms(1,2) by simp
  qed
  obtain r a s' where loop: "discovery_loop agent 0 (enhanced_rate_limit t s) = (r, a, s')"
    by (cases "discovery_loop agent 0 (enhanced_rate_limit t s)")
  have a: "fst (snd (discovery_node t agent s)) = a"
    using open_target by (cases r) (simp_all add: discovery_node_def loop)
  have "fst (discovery_loop agent 0 (enhanced_rate_limit t s)) = Some e
       \<and> fst (snd (discovery_loop agent 0 (enhanced_rate_limit t s))) = i"
    using assms a by (intro discovery_loop_raising_invocation) (simp_all add: loop)
  then have r: "r = Some e" and i: "a = i"
    by (simp_all add: loop)
  have node: "discovery_node t agent s = (''DISCOVERY_ERROR: '' @ ''Discovery error: '' @ e, i, s')"
    using open_target by (simp add: discovery_node_def loop r i)
  have kept: "discovery_complete s' = discovery_complete s"
    using discovery_loop_fields[of agent 0 "enhanced_rate_limit t s"] by (simp add: loop)
  show "fst (discovery_node t agent s) = ''DISCOVERY_ERROR: '' @ ''Discovery error: '' @ e"
    unfolding node by (rule fst_conv)
  show "fst (snd (discovery_node t agent s)) = i"
    unfolding node by simp
  show "discovery_complete (snd (snd (discovery_node t agent s))) = discovery_complete s"
    unfolding node using kept by simp
qed

lemma discovery_node_first_raises:
  assumes "\<not> len_ge_target (discovered_companies s) (TARGET_COMPANIES s)"
    and "outcome (agent 1) = Raises e"
  shows "discovery_node t agent s
     = (''DISCOVERY_ERROR: '' @ ''Discovery error: '' @ e, 1,
        call_tools (tools_called (agent 1)) (enhanced_rate_limit t s))"
proof -
  have "discovery_loop agent 0 (enhanced_rate_limit t s)
      = (Some e, 1, call_tools (tools_called (agent 1)) (enhanced_rate_limit t s))"
    using assms by (subst discovery_loop.simps) (simp add: max_attempts_def)
  then show ?thesis using assms(1)
    by (simp add: discovery_node_def)
qed


lemma discovery_node_budget:
  "fst (snd (discovery_node t agent s)) \<le> max_attempts
   \<and> max_attempts = 10
   \<and> ((\<forall>i e. 0 < i \<and> i \<le> max_attempts \<longrightarrow> outcome (agent i) \<noteq> Raises e) \<longrightarrow>
        fst (discovery_node t agent s) = ''DISCOVERY_COMPLETE''
        \<and> discovery_complete (snd (snd (discovery_node t agent s))))
   \<and> (fst (discovery_node t agent s) = ''DISCOVERY_COMPLETE''
       \<or> (\<exists>e. fst (discovery_node t agent s) = ''DISCOVERY_ERROR: '' @ ''Discovery error: '' @ e
             \<and> 0 < fst (snd (discovery_node t agent s))
             \<and> outcome (agent (fst (snd (discovery_node t agent s)))) = Raises e))"
proof (cases "len_ge_target (discovered_companies s) (TARGET_COMPANIES s)")
  case True
  then have "discovery_node t agent s = (''DISCOVERY_COMPLETE'', 0, s\<lparr> discovery_complete := True \<rparr>)"
    by (simp add: discovery_node_def)
  then show ?thesis
    by (simp add: max_attempts_def)
next
  case False
  obtain r a s' where loop: "discovery_loop agent 0 (enhanced_rate_limit t s) = (r, a, s')"
    by (cases "discovery_loop agent 0 (enhanced_rate_limit t s)")
  have bound: "a \<le> max_attempts"
    using discovery_loop_attempts[of agent 0 "enhanced_rate_limit t s"] by (simp add: loop)
  show ?thesis
  proof (cases r)
    case None
    then have "discovery_node t agent s = (''DISCOVERY_COMPLETE'', a, s'\<lparr> discovery_complete := True \<rparr>)"
      using False by (simp add: discovery_node_def loop)
    then show ?thesis using bound
      by (simp add: max_attempts_def)
  next
    case (Some e)
    then have node: "discovery_node t agent s = (''DISCOVERY_ERROR: '' @ ''Discovery error: '' @ e, a, s')"
      using False by (simp add: discovery_node_def loop)
    have raised: "0 < a \<and> outcome (agent a) = Raises e"
      using discovery_loop_raise[of agent 0 "enhanced_rate_limit t s" e] Some by (simp add: loop)
    have "\<not> (\<forall>i e. 0 < i \<and> i \<le> max_attempts \<longrightarrow> outcome (agent i) \<noteq> Raises e)"
      using raised bound by blast
    moreover have "\<exists>e. fst (discovery_node t agent s) = ''DISCOVERY_ERROR: '' @ ''Discovery error: '' @ e
             \<and> 0 < fst (snd (discovery_node t agent s))
             \<and> outcome (agent (fst (snd (discovery_node t agent s)))) = Raises e"
      unfolding node using raised by simp
    moreover have "fst (snd (discovery_node t agent s)) \<le> max_attempts"
      unfolding node using bound by simp
    moreover have "max_attempts = 10"
      by (simp add: max_attempts_def)
    ultimately show ?thesis by blast
  qed
qed


text \<open>
  Claim C5, as the code has it. \<^verbatim>\<open>discovery_node\<close> is a total function: whatever the
  agent does, it returns, having invoked the agent at most \<^verbatim>\<open>max_attempts\<close> = 10 times.
  When none of those invocations raises, the marker is \<^verbatim>\<open>DISCOVERY_COMPLETE\<close> and the flag
  \<^verbatim>\<open>discovery_complete\<close> is set, whatever the size of the registry. An invocation that
  raises is the last one: the marker is then \<^verbatim>\<open>DISCOVERY_ERROR\<close> with the text of that
  exception and the flag is left as it was. So the marker is \<^verbatim>\<open>DISCOVERY_COMPLETE\<close> exactly
  when no invocation that was made has raised; and when the first invocation raises, the
  node returns the error marker after one attempt, the state being what the limiter and
  that invocation's tool calls have made of it.
\<close>

theorem discovery_node_bounded:
  "fst (snd (discovery_node t agent s)) \<le> max_attempts
   \<and> max_attempts = 10
   \<and> ((\<forall>i e. 0 < i \<and> i \<le> max_attempts \<longrightarrow> outcome (agent i) \<noteq> Raises e) \<longrightarrow>
        fst (discovery_node t agent s) = ''DISCOVERY_COMPLETE''
        \<and> discovery_complete (snd (snd (discovery_node t agent s))))
   \<and> (fst (discovery_node t agent s) = ''DISCOVERY_COMPLETE''
       \<or> (\<exists>e. fst (discovery_node t agent s) = ''DISCOVERY_ERROR: '' @ ''Discovery error: '' @ e
             \<and> 0 < fst (snd (discovery_node t agent s))
             \<and> outcome (agent (fst (snd (discovery_node t agent s)))) = Raises e))
   \<and> (0 < i \<and> i \<le> fst (snd (discovery_node t agent s)) \<and> outcome (agent i) = Raises e \<longrightarrow>
        fst (discovery_node t agent s) = ''DISCOVERY_ERROR: '' @ ''Discovery error: '' @ e
        \<and> fst (snd (discovery_node t agent s)) = i
        \<and> discovery_complete (snd (snd (discovery_node t agent s))) = discovery_complete s)
   \<and> (fst (discovery_node t agent s) = ''DISCOVERY_COMPLETE'' \<longleftrightarrow>
        (\<forall>k x. 0 < k \<and> k \<le> fst (snd (discovery_node t agent s)) \<longrightarrow> outcome (agent k) \<noteq> Raises x))
   \<and> (\<not> len_ge_target (discovered_companies s) (TARGET_COMPANIES s)
        \<and> outcome (agent 1) = Raises e \<longrightarrow>
        discovery_node t agent s
          = (''DISCOVERY_ERROR: '' @ ''Discovery error: '' @ e, 1,
             call_tools (tools_called (agent 1)) (enhanced_rate_limit t s)))"
proof -
  note budget = discovery_node_budget[of t agent s]
  have raised: "0 < i \<and> i \<le> fst (snd (discovery_node t agent s)) \<and> outcome (agent i) = Raises e \<longrightarrow>
        fst (discovery_node t agent s) = ''DISCOVERY_ERROR: '' @ ''Discovery error: '' @ e
        \<and> fst (snd (discovery_node t agent s)) = i
        \<and> discovery_complete (snd (snd (discovery_node t agent s))) = discovery_complete s"
    using discovery_node_raising_invocation[of i t agent s e] by blast
  have differ: "''DISCOVERY_ERROR: '' @ ''Discovery error: '' @ x \<noteq> ''DISCOVERY_COMPLETE''" for x
    by simp
  have exactly: "fst (discovery_node t agent s) = ''DISCOVERY_COMPLETE'' \<longleftrightarrow>
        (\<forall>k x. 0 < k \<and> k \<le> fst (snd (discovery_node t agent s)) \<longrightarrow> outcome (agent k) \<noteq> Raises x)"
  proof
    assume dc: "fst (discovery_node t agent s) = ''DISCOVERY_COMPLETE''"
    show "\<forall>k x. 0 < k \<and> k \<le> fst (snd (discovery_node t agent s)) \<longrightarrow> outcome (agent k) \<noteq> Raises x"
    proof (intro allI impI notI)
      fix k x
      assume "0 < k \<and> k \<le> fst (snd (discovery_node t agent s))" and "outcome (agent k) = Raises x"
      then have "fst (discovery_node t agent s) = ''DISCOVERY_ERROR: '' @ ''Discovery error: '' @ x"
        using discovery_node_raising_invocation(1)[of k t agent s x] by blast
      then show False using dc differ[of x] by simp
    qed
  next
    assume none: "\<forall>k x. 0 < k \<and> k \<le> fst (snd (discovery_node t agent s)) \<longrightarrow> outcome (agent k) \<noteq> Raises x"
    have "\<not> (\<exists>e. fst (discovery_node t agent s) = ''DISCOVERY_ERROR: '' @ ''Discovery error: '' @ e
             \<and> 0 < fst (snd (discovery_node t agent s))
             \<and> outcome (agent (fst (snd (discovery_node t agent s)))) = Raises e)"
      using none by blast
    then show "fst (discovery_node t agent s) = ''DISCOVERY_COMPLETE''"
      using budget by blast
  qed
  have first: "\<not> len_ge_target (discovered_companies s) (TARGET_COMPANIES s)
        \<and> outcome (agent 1) = Raises e \<longrightarrow>
        discovery_node t agent s
          = (''DISCOVERY_ERROR: '' @ ''Discovery error: '' @ e, 1,
             call_tools (tools_called (agent 1)) (enhanced_rate_limit t s))"
    using discovery_node_first_raises[of s agent e t] by blast
  show ?thesis
    using budget raised exactly first by blast
qed

text \<open>
  An agent that never adds a company and never says that it has finished: ten
  invocations, then \<^verbatim>\<open>DISCOVERY_COMPLETE\<close> on an empty registry. An agent that raises: one
  invocation, then the error marker.
\<close>

theorem discovery_node_bounded_witness:
  "discovery_node 1000 (silent_agent ''No companies found'') (initial_state (Count 1))
      = (''DISCOVERY_COMPLETE'', 10,
         (initial_state (Count 1))\<lparr> last_request_time := 1000, request_count := 1,
            discovery_complete := True \<rparr>)
   \<and> fst (discovery_node 1000 (silent_agent ''No companies found'') (initial_state (Count 1)))
      = ''DISCOVERY_COMPLETE''
   \<and> fst (snd (discovery_node 1000 (silent_agent ''No companies found'') (initial_state (Count 1))))
      \<le> max_attempts
   \<and> discovery_complete
        (snd (snd (discovery_node 1000 (silent_agent ''No companies found'') (initial_state (Count 1)))))
   \<and> \<not> len_ge_target (discovered_companies (initial_state (Count 1)))
          (TARGET_COMPANIES (initial_state (Count 1)))
   \<and> outcome (failing_agent ''boom'' 1) = Raises ''boom''
   \<and> discovery_node 1000 (failing_agent ''boom'') (initial_state (Count 1))
      = (''DISCOVERY_ERROR: Discovery error: boom'', 1,
         call_tools (tools_called (failing_agent ''boom'' 1))
           (enhanced_rate_limit 1000 (initial_state (Count 1))))
   \<and> fst (snd (discovery_node 1000 (failing_agent ''boom'') (initial_state (Count 1)))) = 1"
proof -
  have quiet: "\<forall>i e. 0 < i \<and> i \<le> max_attempts \<longrightarrow>
       outcome (silent_agent ''No companies found'' i) \<noteq> Raises e"
    by (simp add: silent_agent_def)
  have v: "discovery_node 1000 (silent_agent ''No companies found'') (initial_state (Count 1))
      = (''DISCOVERY_COMPLETE'', 10,
         (initial_state (Count 1))\<lparr> last_request_time := 1000, request_count := 1,
            discovery_complete := True \<rparr>)"
    by code_simp
  have room: "\<not> len_ge_target (discovered_companies (initial_state (Count 1)))
          (TARGET_COMPANIES (initial_state (Count 1)))"
    by code_simp
  have boom: "outcome (failing_agent ''boom'' 1) = Raises ''boom''"
    by (simp add: failing_agent_def)
  have marker: "''DISCOVERY_ERROR: '' @ ''Discovery error: '' @ ''boom''
      = ''DISCOVERY_ERROR: Discovery error: boom''"
    by simp
  note quiet_run = discovery_node_bounded[of 1000 "silent_agent ''No companies found''"
      "initial_state (Count 1)" 1 "''boom''"]
  note failing_run = discovery_node_bounded[of 1000 "failing_agent ''boom''"
      "initial_state (Count 1)" 1 "''boom''"]
  have node: "discovery_node 1000 (failing_agent ''boom'') (initial_state (Count 1))
      = (''DISCOVERY_ERROR: Discovery error: boom'', 1,
         call_tools (tools_called (failing_agent ''boom'' 1))
           (enhanced_rate_limit 1000 (initial_state (Count 1))))"
    using failing_run room boom unfolding marker by blast
  have one: "fst (snd (discovery_node 1000 (failing_agent ''boom'') (initial_state (Count 1)))) = 1"
    unfolding node by simp
  show ?thesis
    using quiet_run quiet v room boom node one
    by blast
qed

text \<open>
  Claim C5 as the specification words it fails for an agent that raises: the marker is
  then the error marker, after one invocation.
\<close>

theorem discovery_node_raising_agent_counterexample:
  "discovery_node 1000 (failing_agent ''boom'') (initial_state (Count 1))
      = (''DISCOVERY_ERROR: Discovery error: boom'', 1,
         (initial_state (Count 1))\<lparr> last_request_time := 1000, request_count := 1 \<rparr>)
   \<and> fst (discovery_node 1000 (failing_agent ''boom'') (initial_state (Count 1)))
      \<noteq> ''DISCOVERY_COMPLETE''"
  by code_simp

section \<open>The transition function: properties\<close>

lemma research_node_markers:
  "fst (research_node t run w s) = ''ALL_RESEARCH_COMPLETE''
   \<or> fst (research_node t run w s) = ''RESEARCH_PROGRESS''
   \<or> (\<exists>e. fst (research_node t run w s) = ''RESEARCH_ERROR: '' @ ''Research error: '' @ e)"
proof (cases "current_research_index s < length (discovered_companies s)")
  case False
  then show ?thesis by (simp add: research_node_complete)
next
  case True
  show ?thesis
  proof (cases "outcome run")
    case (Raises e)
    then have "fst (research_node t run w s) = ''RESEARCH_ERROR: '' @ ''Research error: '' @ e"
      using True research_node_raises[of s run e t w] by simp
    then show ?thesis by blast
  next
    case (NoMessages e)
    then have "fst (research_node t run w s) = ''RESEARCH_ERROR: '' @ ''Research error: '' @ e"
      using True research_node_raises[of s run e t w] by simp
    then show ?thesis by blast
  next
    case (LastMessage r)
    have "fst (research_node t run w s) = ''RESEARCH_PROGRESS''"
      by (rule research_node_returns[OF True LastMessage, of t w]) simp
    then show ?thesis by blast
  qed
qed

lemma should_continue_on_run_markers:
  assumes "\<not> ((py_in ''ERROR'' m \<or> py_in ''ALL_RESEARCH_COMPLETE'' m)
              \<and> (py_in ''DISCOVERY_COMPLETE'' m \<or> py_in ''RESEARCH_PROGRESS'' m))"
    and "py_in ''DISCOVERY_COMPLETE'' m \<longrightarrow> current_research_index s = 0"
  shows "should_continue m s = Research \<longleftrightarrow>
           (py_in ''DISCOVERY_COMPLETE'' m \<and> discovered_companies s \<noteq> [])
           \<or> (py_in ''RESEARCH_PROGRESS'' m
               \<and> current_research_index s < length (discovered_companies s))"
    and "py_in ''ERROR'' m \<or> py_in ''ALL_RESEARCH_COMPLETE'' m
           \<or> length (discovered_companies s) \<le> current_research_index s \<longrightarrow>
         should_continue m s = END"
proof -
  show "should_continue m s = Research \<longleftrightarrow>
           (py_in ''DISCOVERY_COMPLETE'' m \<and> discovered_companies s \<noteq> [])
           \<or> (py_in ''RESEARCH_PROGRESS'' m
               \<and> current_research_index s < length (discovered_companies s))"
    using assms(1) by (auto simp: should_continue_def)
  show "py_in ''ERROR'' m \<or> py_in ''ALL_RESEARCH_COMPLETE'' m
           \<or> length (discovered_companies s) \<le> current_research_index s \<longrightarrow>
         should_continue m s = END"
    using assms(2) by (auto simp: should_continue_def)
qed

text \<open>
  Claim C3. The nodes emit five kinds of marker: \<^verbatim>\<open>discovery_node\<close> emits
  \<^verbatim>\<open>DISCOVERY_COMPLETE\<close> or a \<^verbatim>\<open>DISCOVERY_ERROR\<close> marker and leaves the cursor where it was
  (at 0, where a run starts); \<^verbatim>\<open>research_node\<close> emits \<^verbatim>\<open>RESEARCH_PROGRESS\<close>,
  \<^verbatim>\<open>ALL_RESEARCH_COMPLETE\<close> or a \<^verbatim>\<open>RESEARCH_ERROR\<close> marker. On a marker that does not carry
  \<^verbatim>\<open>ERROR\<close> or \<^verbatim>\<open>ALL_RESEARCH_COMPLETE\<close> together with \<^verbatim>\<open>DISCOVERY_COMPLETE\<close> or
  \<^verbatim>\<open>RESEARCH_PROGRESS\<close> (the three plain sentinels, and an error marker whose exception text
  does not spell a sentinel), and with the cursor at 0 when the marker is the discovery
  one, \<^verbatim>\<open>should_continue\<close> is the table of the specification: it answers \<^verbatim>\<open>"research"\<close>
  iff the marker contains \<^verbatim>\<open>DISCOVERY_COMPLETE\<close> and the registry is not empty, or contains
  \<^verbatim>\<open>RESEARCH_PROGRESS\<close> and the cursor is below the length of the registry; it answers
  \<^verbatim>\<open>END\<close> whenever the marker is an error marker or \<^verbatim>\<open>ALL_RESEARCH_COMPLETE\<close> or the cursor
  is at or past the length. Marker by marker: \<^verbatim>\<open>DISCOVERY_COMPLETE\<close> continues iff the
  registry is not empty; \<^verbatim>\<open>RESEARCH_PROGRESS\<close> continues iff the cursor is below the length,
  and ends when the cursor equals the length; \<^verbatim>\<open>ALL_RESEARCH_COMPLETE\<close> and both error
  markers, whatever the text of the exception, end the workflow.
\<close>

theorem should_continue_table:
  "(\<not> ((py_in ''ERROR'' m \<or> py_in ''ALL_RESEARCH_COMPLETE'' m)
         \<and> (py_in ''DISCOVERY_COMPLETE'' m \<or> py_in ''RESEARCH_PROGRESS'' m))
     \<and> (py_in ''DISCOVERY_COMPLETE'' m \<longrightarrow> current_research_index s = 0) \<longrightarrow>
      (should_continue m s = Research \<longleftrightarrow>
           (py_in ''DISCOVERY_COMPLETE'' m \<and> discovered_companies s \<noteq> [])
           \<or> (py_in ''RESEARCH_PROGRESS'' m
               \<and> current_research_index s < length (discovered_companies s)))
      \<and> (py_in ''ERROR'' m \<or> py_in ''ALL_RESEARCH_COMPLETE'' m
           \<or> length (discovered_companies s) \<le> current_research_index s \<longrightarrow>
         should_continue m s = END))
   \<and> (should_continue m s = END \<longleftrightarrow> should_continue m s \<noteq> Research)
   \<and> (should_continue ''DISCOVERY_COMPLETE'' s = Research \<longleftrightarrow> discovered_companies s \<noteq> [])
   \<and> (current_research_index s = 0
        \<and> length (discovered_companies s) \<le> current_research_index s \<longrightarrow>
        should_continue ''DISCOVERY_COMPLETE'' s = END)
   \<and> (should_continue ''RESEARCH_PROGRESS'' s = Research
        \<longleftrightarrow> current_research_index s < length (discovered_companies s))
   \<and> (length (discovered_companies s) \<le> current_research_index s \<longrightarrow>
        should_continue ''RESEARCH_PROGRESS'' s = END)
   \<and> should_continue ''ALL_RESEARCH_COMPLETE'' s = END
   \<and> should_continue (''DISCOVERY_ERROR: '' @ ''Discovery error: '' @ e) s = END
   \<and> should_continue (''RESEARCH_ERROR: '' @ ''Research error: '' @ e) s = END
   \<and> (fst (discovery_node t agent s0) = ''DISCOVERY_COMPLETE''
       \<or> (\<exists>x. fst (discovery_node t agent s0) = ''DISCOVERY_ERROR: '' @ ''Discovery error: '' @ x))
   \<and> current_research_index (snd (snd (discovery_node t agent s0))) = current_research_index s0
   \<and> (fst (research_node t run w s0) = ''ALL_RESEARCH_COMPLETE''
       \<or> fst (research_node t run w s0) = ''RESEARCH_PROGRESS''
       \<or> (\<exists>x. fst (research_node t run w s0) = ''RESEARCH_ERROR: '' @ ''Research error: '' @ x))"
proof (intro conjI)
  show "\<not> ((py_in ''ERROR'' m \<or> py_in ''ALL_RESEARCH_COMPLETE'' m)
         \<and> (py_in ''DISCOVERY_COMPLETE'' m \<or> py_in ''RESEARCH_PROGRESS'' m))
     \<and> (py_in ''DISCOVERY_COMPLETE'' m \<longrightarrow> current_research_index s = 0) \<longrightarrow>
      (should_continue m s = Research \<longleftrightarrow>
           (py_in ''DISCOVERY_COMPLETE'' m \<and> discovered_companies s \<noteq> [])
           \<or> (py_in ''RESEARCH_PROGRESS'' m
               \<and> current_research_index s < length (discovered_companies s)))
      \<and> (py_in ''ERROR'' m \<or> py_in ''ALL_RESEARCH_COMPLETE'' m
           \<or> length (discovered_companies s) \<le> current_research_index s \<longrightarrow>
         should_continue m s = END)"
    using should_continue_on_run_markers[of m s] by blast
  show "should_continue m s = END \<longleftrightarrow> should_continue m s \<noteq> Research"
    by (cases "should_continue m s") simp_all
  show "should_continue ''DISCOVERY_COMPLETE'' s = Research \<longleftrightarrow> discovered_companies s \<noteq> []"
    by (simp add: plain_markers(1))
  show "current_research_index s = 0
        \<and> length (discovered_companies s) \<le> current_research_index s \<longrightarrow>
        should_continue ''DISCOVERY_COMPLETE'' s = END"
    by (auto simp: plain_markers(1))
  show "should_continue ''RESEARCH_PROGRESS'' s = Research
        \<longleftrightarrow> current_research_index s < length (discovered_companies s)"
    by (simp add: plain_markers(2))
  show "length (discovered_companies s) \<le> current_research_index s \<longrightarrow>
        should_continue ''RESEARCH_PROGRESS'' s = END"
    by (simp add: plain_markers(2))
  show "should_continue ''ALL_RESEARCH_COMPLETE'' s = END"
    by (rule plain_markers(3))
  show "should_continue (''DISCOVERY_ERROR: '' @ ''Discovery error: '' @ e) s = END"
    by (rule error_marker_ends(2))
  show "should_continue (''RESEARCH_ERROR: '' @ ''Research error: '' @ e) s = END"
    by (rule error_marker_ends(1))
  show "fst (discovery_node t agent s0) = ''DISCOVERY_COMPLETE''
       \<or> (\<exists>x. fst (discovery_node t agent s0) = ''DISCOVERY_ERROR: '' @ ''Discovery error: '' @ x)"
    by (rule discovery_node_markers)
  show "current_research_index (snd (snd (discovery_node t agent s0))) = current_research_index s0"
    by (rule discovery_node_cursor)
  show "fst (research_node t run w s0) = ''ALL_RESEARCH_COMPLETE''
       \<or> fst (research_node t run w s0) = ''RESEARCH_PROGRESS''
       \<or> (\<exists>x. fst (research_node t run w s0) = ''RESEARCH_ERROR: '' @ ''Research error: '' @ x)"
    by (rule research_node_markers)
qed

text \<open>
  The table at work: after discovery with one record and the cursor at 0 the workflow
  goes on to research; under \<^verbatim>\<open>RESEARCH_PROGRESS\<close> with the cursor equal to the length of
  the registry it ends; on an error marker it ends.
\<close>

theorem should_continue_table_witness:
  "\<not> ((py_in ''ERROR'' ''DISCOVERY_COMPLETE'' \<or> py_in ''ALL_RESEARCH_COMPLETE'' ''DISCOVERY_COMPLETE'')
       \<and> (py_in ''DISCOVERY_COMPLETE'' ''DISCOVERY_COMPLETE''
          \<or> py_in ''RESEARCH_PROGRESS'' ''DISCOVERY_COMPLETE''))
   \<and> current_research_index (state_with (Count 1) [company_named ''Acme Corp''] 0) = 0
   \<and> should_continue ''DISCOVERY_COMPLETE'' (state_with (Count 1) [company_named ''Acme Corp''] 0)
       = Research
   \<and> should_continue ''DISCOVERY_COMPLETE'' (initial_state (Count 1)) = END
   \<and> length (discovered_companies (state_with (Count 1) [company_named ''Acme Corp''] 1))
       \<le> current_research_index (state_with (Count 1) [company_named ''Acme Corp''] 1)
   \<and> should_continue ''RESEARCH_PROGRESS'' (state_with (Count 1) [company_named ''Acme Corp''] 1) = END
   \<and> py_in ''ERROR'' ''RESEARCH_ERROR: Research error: boom''
   \<and> should_continue ''RESEARCH_ERROR: Research error: boom''
        (state_with (Count 1) [company_named ''Acme Corp''] 0) = END"
proof -
  let ?s0 = "state_with (Count 1) [company_named ''Acme Corp''] 0"
  let ?s1 = "state_with (Count 1) [company_named ''Acme Corp''] 1"
  let ?e = "initial_state (Count 1)"
  have dc: "\<not> py_in ''ERROR'' ''DISCOVERY_COMPLETE''"
    "\<not> py_in ''ALL_RESEARCH_COMPLETE'' ''DISCOVERY_COMPLETE''"
    "py_in ''DISCOVERY_COMPLETE'' ''DISCOVERY_COMPLETE''"
    by simp_all
  have rp: "\<not> py_in ''ERROR'' ''RESEARCH_PROGRESS''"
    "\<not> py_in ''ALL_RESEARCH_COMPLETE'' ''RESEARCH_PROGRESS''"
    "\<not> py_in ''DISCOVERY_COMPLETE'' ''RESEARCH_PROGRESS''"
    "py_in ''RESEARCH_PROGRESS'' ''RESEARCH_PROGRESS''"
    by simp_all
  have err: "py_in ''ERROR'' ''RESEARCH_ERROR: Research error: boom''"
    "\<not> py_in ''DISCOVERY_COMPLETE'' ''RESEARCH_ERROR: Research error: boom''"
    "\<not> py_in ''RESEARCH_PROGRESS'' ''RESEARCH_ERROR: Research error: boom''"
    by simp_all
  have start: "current_research_index ?s0 = 0" "current_research_index ?e = 0"
    by (simp_all add: state_with_def initial_state_def)
  have some: "discovered_companies ?s0 \<noteq> []"
    by (simp add: state_with_def)
  have none: "length (discovered_companies ?e) \<le> current_research_index ?e"
    by (simp add: initial_state_def)
  have at_end: "length (discovered_companies ?s1) \<le> current_research_index ?s1"
    by (simp add: state_with_def)
  note after_discovery = should_continue_table[of "''DISCOVERY_COMPLETE''" ?s0 "''boom''" 0
      "failing_agent ''boom''" ?e "failing_agent ''boom'' 1" True]
  note nothing_found = should_continue_table[of "''DISCOVERY_COMPLETE''" ?e "''boom''" 0
      "failing_agent ''boom''" ?e "failing_agent ''boom'' 1" True]
  note all_researched = should_continue_table[of "''RESEARCH_PROGRESS''" ?s1 "''boom''" 0
      "failing_agent ''boom''" ?e "failing_agent ''boom'' 1" True]
  note failed = should_continue_table[of "''RESEARCH_ERROR: Research error: boom''" ?s0 "''boom''" 0
      "failing_agent ''boom''" ?e "failing_agent ''boom'' 1" True]
  have go: "should_continue ''DISCOVERY_COMPLETE'' ?s0 = Research"
    using after_discovery dc start some by blast
  have empty: "should_continue ''DISCOVERY_COMPLETE'' ?e = END"
    using nothing_found dc start none by blast
  have finished: "should_continue ''RESEARCH_PROGRESS'' ?s1 = END"
    using all_researched rp at_end by blast
  have stop: "should_continue ''RESEARCH_ERROR: Research error: boom'' ?s0 = END"
    using failed err by blast
  show ?thesis
    using dc start go empty at_end finished err stop by blast
qed

end
